theory Spec2Isabelle
  imports Main "HOL-Library.Sublist"
begin

section \<open>The diet reminder bot: data model\<close>

text \<open>
  The program is \<^verbatim>\<open>src/diet_reminder_bot.py\<close>. Python strings are modelled as
  \<^typ>\<open>string\<close>, Python's unbounded integers as \<^typ>\<open>int\<close>, and the fields of a
  calendar date and of a time of day, which are never negative, as \<^typ>\<open>nat\<close>.
\<close>

subsection \<open>Plan entries\<close>

text \<open>The frozen dataclass \<^verbatim>\<open>ReminderItem\<close> and the module constant \<^verbatim>\<open>DAILY_PLAN\<close>.\<close>

record ReminderItem =
  time_24h :: string
  title :: string
  details :: string

definition DAILY_PLAN :: "ReminderItem list" where
  "DAILY_PLAN =
    [ \<lparr>time_24h = ''08:30'', title = ''Morning dry fruits and seeds'',
        details = ''It is 8:30 AM. Please take soaked almonds, walnuts, cranberry, seeds, and figs.''\<rparr>,
      \<lparr>time_24h = ''09:30'', title = ''Breakfast'',
        details = ''It is 9:30 AM. Please have breakfast now.''\<rparr>,
      \<lparr>time_24h = ''10:30'', title = ''Coconut water'',
        details = ''It is 10:30 AM. Please drink coconut water now.''\<rparr>,
      \<lparr>time_24h = ''11:30'', title = ''Folic acid and iron'',
        details = ''It is 11:30 AM. Please take folic acid medicine and iron medicine now.''\<rparr>,
      \<lparr>time_24h = ''13:30'', title = ''Lunch, salad, and iron'',
        details = ''It is 1:30 PM. Please have lunch and salad, and also take iron medicine.''\<rparr>,
      \<lparr>time_24h = ''15:00'', title = ''Afternoon fruits'',
        details = ''It is 3:00 PM. Please eat orange, anaar, and apple.''\<rparr>,
      \<lparr>time_24h = ''17:00'', title = ''Snack and tea'',
        details = ''It is 5:00 PM. Please have snack and tea now.''\<rparr>,
      \<lparr>time_24h = ''20:15'', title = ''Magnesium before dinner'',
        details = ''It is before dinner time. Please take magnesium medicine now.''\<rparr>,
      \<lparr>time_24h = ''20:30'', title = ''Dinner with eggs and salad'',
        details = ''It is 8:30 PM. Please have dinner, 2 eggs, and salad.''\<rparr>,
      \<lparr>time_24h = ''22:00'', title = ''Milk'',
        details = ''It is 10:00 PM. Please drink milk now.''\<rparr>,
      \<lparr>time_24h = ''22:30'', title = ''Ecosprin before sleep'',
        details = ''It is bedtime. Please take ecosprin medicine before sleep.''\<rparr> ]"

subsection \<open>Dates and times\<close>

text \<open>
  \<^verbatim>\<open>datetime.date\<close> and \<^verbatim>\<open>datetime.datetime\<close> (a subclass of \<^verbatim>\<open>date\<close>, hence the
  record extension). The timezone of an aware \<^verbatim>\<open>datetime\<close> is the one the clock was
  asked for and plays no part in what the loop computes; it is not a field here.
\<close>

record date =
  year :: nat
  month :: nat
  day :: nat

record datetime = date +
  hour :: nat
  minute :: nat
  second :: nat
  microsecond :: nat

text \<open>The ranges Python enforces when it builds a \<^verbatim>\<open>date\<close>.\<close>

definition is_leap :: "nat \<Rightarrow> bool" where
  "is_leap y = (y mod 4 = 0 \<and> (y mod 100 \<noteq> 0 \<or> y mod 400 = 0))"

definition days_in_month :: "nat \<Rightarrow> nat \<Rightarrow> nat" where
  "days_in_month y m =
     (if m = 2 then (if is_leap y then 29 else 28)
      else if m = 4 \<or> m = 6 \<or> m = 9 \<or> m = 11 then 30 else 31)"

definition valid_date :: "date \<Rightarrow> bool" where
  "valid_date d =
     (1 \<le> year d \<and> year d \<le> 9999 \<and> 1 \<le> month d \<and> month d \<le> 12 \<and>
      1 \<le> day d \<and> day d \<le> days_in_month (year d) (month d))"

text \<open>\<^verbatim>\<open>now_local.date()\<close>.\<close>

definition date_of :: "datetime \<Rightarrow> date" where
  "date_of t = \<lparr>year = year t, month = month t, day = day t\<rparr>"

text \<open>\<^verbatim>\<open>a < b\<close> on dates: Python compares the triples (year, month, day).\<close>

definition date_lt :: "date \<Rightarrow> date \<Rightarrow> bool" where
  "date_lt a b =
     (year a < year b \<or>
      (year a = year b \<and> (month a < month b \<or> (month a = month b \<and> day a < day b))))"

definition date_le :: "date \<Rightarrow> date \<Rightarrow> bool" where
  "date_le a b = (\<not> date_lt b a)"

text \<open>\<^verbatim>\<open>.replace(second=0, microsecond=0)\<close>.\<close>

definition replace_second_microsecond :: "datetime \<Rightarrow> datetime" where
  "replace_second_microsecond t = t\<lparr>second := 0, microsecond := 0\<rparr>"

text \<open>
  Zero-padded decimal fields, as \<^verbatim>\<open>%02d\<close> and \<^verbatim>\<open>%04d\<close> print them for the values
  a valid date or time holds (below 100, below 10000).
\<close>

definition digit_char :: "nat \<Rightarrow> char" where
  "digit_char n = ''0123456789'' ! (n mod 10)"

definition two_digits :: "nat \<Rightarrow> string" where
  "two_digits n = [digit_char (n div 10), digit_char n]"

definition four_digits :: "nat \<Rightarrow> string" where
  "four_digits n =
     [digit_char (n div 1000), digit_char (n div 100), digit_char (n div 10), digit_char n]"

text \<open>\<^verbatim>\<open>date.isoformat()\<close>: \<^verbatim>\<open>YYYY-MM-DD\<close>.\<close>

definition isoformat :: "date \<Rightarrow> string" where
  "isoformat d = four_digits (year d) @ ''-'' @ two_digits (month d) @ ''-'' @ two_digits (day d)"

text \<open>\<^verbatim>\<open>strftime("%H:%M")\<close> and \<^verbatim>\<open>strftime("%I:%M %p")\<close> (12-hour clock, C locale).\<close>

definition strftime_HM :: "datetime \<Rightarrow> string" where
  "strftime_HM t = two_digits (hour t) @ '':'' @ two_digits (minute t)"

definition strftime_IMp :: "datetime \<Rightarrow> string" where
  "strftime_IMp t =
     two_digits (if hour t mod 12 = 0 then 12 else hour t mod 12) @ '':'' @
     two_digits (minute t) @ '' '' @ (if hour t < 12 then ''AM'' else ''PM'')"

subsection \<open>Configuration\<close>

record AppConfig =
  twilio_account_sid :: string
  twilio_auth_token :: string
  twilio_whatsapp_number :: string
  sister_whatsapp_number :: string
  timezone :: string
  start_date :: date
  calcium_reminder_weekday :: int
  calcium_reminder_time :: string
  poll_interval_seconds :: int

datatype error = ValueError string | OverflowError string | OSError string

text \<open>
  \<^verbatim>\<open>str.strip()\<close> removes the white space at both ends; \<open>isspace\<close> lists the white
  space characters of Python among the code points below 256.
\<close>

definition isspace :: "char \<Rightarrow> bool" where
  "isspace c = (of_char c \<in> {9, 10, 11, 12, 13, 28, 29, 30, 31, 32, 133, 160 :: nat})"

definition strip :: "string \<Rightarrow> string" where
  "strip s = rev (dropWhile isspace (rev (dropWhile isspace s)))"

definition startswith :: "string \<Rightarrow> string \<Rightarrow> bool" where
  "startswith s p = (take (length p) s = p)"

text \<open>\<^verbatim>\<open>_normalize_whatsapp_number(raw, env_name)\<close>; the raised \<^verbatim>\<open>ValueError\<close> is \<open>Inl\<close>.\<close>

definition normalize_whatsapp_number :: "string \<Rightarrow> string \<Rightarrow> error + string" where
  "normalize_whatsapp_number raw env_name =
     (let v = strip raw in
      if startswith v ''whatsapp:'' then Inr v
      else if \<not> startswith v ''+'' then
        Inl (ValueError (env_name @
          '' must be in E.164 format like +91XXXXXXXXXX or whatsapp:+91XXXXXXXXXX''))
      else Inr (''whatsapp:'' @ v))"

section \<open>The scheduler loop\<close>

subsection \<open>Effects and state\<close>

text \<open>
  What the loop does to the outside world is kept as a trace of events, oldest first:
  the records handed to \<^verbatim>\<open>logging.info\<close> and \<^verbatim>\<open>logging.exception\<close>, each call of
  \<^verbatim>\<open>trigger_event(client, now_local, item, config)\<close>, each call of
  \<^verbatim>\<open>client.messages.create(from_, to, body)\<close> and each \<^verbatim>\<open>time.sleep(seconds)\<close>.
  Each call is recorded with its arguments as given.
\<close>

datatype event =
    LogInfo string
  | LogException string
  | TriggerEvent datetime ReminderItem
  | MessagesCreate string string string
  | Sleep int

text \<open>
  The local variables \<^verbatim>\<open>sent_keys\<close> and \<^verbatim>\<open>last_seen_date\<close> of \<^verbatim>\<open>run\<close>
  (\<open>None\<close> is Python's \<^verbatim>\<open>None\<close>), together with the trace.
\<close>

record state =
  sent_keys :: "string set"
  last_seen_date :: "date option"
  trace :: "event list"

text \<open>
  The Twilio client is outside the program. It is a parameter: given everything that
  happened so far and the arguments of \<^verbatim>\<open>messages.create\<close>, it either returns
  (\<open>None\<close>) or raises an \<^verbatim>\<open>Exception\<close> (\<open>Some\<close> of its text). An interrupt of the
  process during the call is not an \<^verbatim>\<open>Exception\<close> and is not an outcome of the client.
\<close>

type_synonym Client = "event list \<Rightarrow> string \<Rightarrow> string \<Rightarrow> string \<Rightarrow> string option"

text \<open>
  The clock is outside the program too. One reading of it is what
  \<^verbatim>\<open>datetime.now(tz=ZoneInfo(name))\<close> returns at that moment, for each timezone name.
\<close>

type_synonym clock_reading = "string \<Rightarrow> datetime"

definition logging_info :: "string \<Rightarrow> state \<Rightarrow> state" where
  "logging_info msg s = s\<lparr>trace := trace s @ [LogInfo msg]\<rparr>"

definition logging_exception :: "string \<Rightarrow> state \<Rightarrow> state" where
  "logging_exception msg s = s\<lparr>trace := trace s @ [LogException msg]\<rparr>"

text \<open>
  \<^verbatim>\<open>time.sleep(seconds)\<close>: \<open>time_sleep\<close> records the call. Whether the call returns
  is outside the program, like the client and the clock, and is a parameter of the loop
  (see \<open>while_true\<close> below): for the interval it is given, the call either returns
  after that time (\<open>None\<close>) or raises (\<open>Some\<close> of the exception). Python raises
  \<^verbatim>\<open>ValueError\<close> for a negative interval, and \<^verbatim>\<open>OverflowError\<close> or \<^verbatim>\<open>OSError\<close> for one
  beyond the range of its clock; \<^verbatim>\<open>load_config\<close> accepts any integer as
  \<^verbatim>\<open>POLL_INTERVAL_SECONDS\<close>, and nothing in \<^verbatim>\<open>run\<close> catches these exceptions.
\<close>

definition time_sleep :: "int \<Rightarrow> state \<Rightarrow> state" where
  "time_sleep seconds s = s\<lparr>trace := trace s @ [Sleep seconds]\<rparr>"

type_synonym sleep_outcome = "int \<Rightarrow> error option"

subsection \<open>Sending one reminder\<close>

definition build_whatsapp_message :: "ReminderItem \<Rightarrow> datetime \<Rightarrow> string" where
  "build_whatsapp_message item now_local =
     (let human_time = strftime_IMp now_local in
      ''Reminder ('' @ human_time @ ''): '' @ title item @ [CHR 0x0A] @
      details item @ [CHR 0x0A] @
      ''Please take care.'')"

text \<open>The result is the exception raised, if any, and the state after the call.\<close>

definition send_whatsapp ::
  "Client \<Rightarrow> string \<Rightarrow> string \<Rightarrow> string \<Rightarrow> state \<Rightarrow> string option \<times> state" where
  "send_whatsapp client to_whatsapp from_whatsapp message s =
     (client (trace s) from_whatsapp to_whatsapp message,
      s\<lparr>trace := trace s @ [MessagesCreate from_whatsapp to_whatsapp message]\<rparr>)"

definition trigger_event ::
  "Client \<Rightarrow> datetime \<Rightarrow> ReminderItem \<Rightarrow> AppConfig \<Rightarrow> state \<Rightarrow> string option \<times> state" where
  "trigger_event client now_local item config s =
     (let s1 = s\<lparr>trace := trace s @ [TriggerEvent now_local item]\<rparr>;
          wa_msg = build_whatsapp_message item now_local
      in send_whatsapp client (sister_whatsapp_number config)
           (twilio_whatsapp_number config) wa_msg s1)"

subsection \<open>The body of the \<^verbatim>\<open>for\<close> loop\<close>

text \<open>Line 224: the key of an entry on a day.\<close>

definition dispatch_key :: "date \<Rightarrow> ReminderItem \<Rightarrow> string" where
  "dispatch_key today item = isoformat today @ ''-'' @ time_24h item @ ''-'' @ title item"

text \<open>Line 236: \<^verbatim>\<open>sent_keys.add(key)\<close>.\<close>

definition sent_keys_add :: "string \<Rightarrow> state \<Rightarrow> state" where
  "sent_keys_add key s = s\<lparr>sent_keys := insert key (sent_keys s)\<rparr>"

text \<open>
  Lines 228 to 236: the attempt. The \<^verbatim>\<open>except Exception\<close> clause catches whatever the
  client raises, and the \<^verbatim>\<open>finally\<close> clause runs on both paths.
\<close>

definition attempt ::
  "AppConfig \<Rightarrow> Client \<Rightarrow> datetime \<Rightarrow> ReminderItem \<Rightarrow> string \<Rightarrow> state \<Rightarrow> state" where
  "attempt config client now_local item key s =
     (let s1 = logging_info (''Attempting reminder | key='' @ key) s;
          (exc, s2) = trigger_event client now_local item config s1;
          s3 = (case exc of
                  None \<Rightarrow> logging_info (''Reminder success | key='' @ key) s2
                | Some e \<Rightarrow>
                    logging_exception (''Reminder failed | key='' @ key @ '' | error='' @ e) s2)
      in sent_keys_add key s3)"

text \<open>Lines 221 to 236: one pass of the loop body for \<open>item\<close>.\<close>

definition item_step ::
  "AppConfig \<Rightarrow> Client \<Rightarrow> datetime \<Rightarrow> date \<Rightarrow> string \<Rightarrow> ReminderItem \<Rightarrow> state \<Rightarrow> state" where
  "item_step config client now_local today current_hm item s =
     (if time_24h item \<noteq> current_hm then s
      else
        let key = dispatch_key today item in
        if key \<in> sent_keys s then s
        else attempt config client now_local item key s)"

text \<open>Line 220: \<^verbatim>\<open>for item in ...\<close>, over the entries in order.\<close>

fun for_items ::
  "AppConfig \<Rightarrow> Client \<Rightarrow> datetime \<Rightarrow> date \<Rightarrow> string \<Rightarrow> ReminderItem list \<Rightarrow> state \<Rightarrow> state" where
  "for_items config client now_local today current_hm [] s = s"
| "for_items config client now_local today current_hm (item # items) s =
     for_items config client now_local today current_hm items
       (item_step config client now_local today current_hm item s)"

subsection \<open>One iteration of \<^verbatim>\<open>while True\<close>\<close>

text \<open>
  Lines 208 to 240. The Plan is a parameter, so that claims about other Plans than
  \<open>DAILY_PLAN\<close> can be stated; \<^verbatim>\<open>run\<close> passes \<open>DAILY_PLAN\<close>.
\<close>

definition now_local_of :: "AppConfig \<Rightarrow> clock_reading \<Rightarrow> datetime" where
  "now_local_of config now = replace_second_microsecond (now (timezone config))"

definition iteration ::
  "AppConfig \<Rightarrow> Client \<Rightarrow> ReminderItem list \<Rightarrow> clock_reading \<Rightarrow> state \<Rightarrow> state" where
  "iteration config client plan now s =
     (let now_local = now_local_of config now;
          today = date_of now_local;
          current_hm = strftime_HM now_local
      in
        if date_lt today (start_date config) then time_sleep (poll_interval_seconds config) s
        else
          let s1 = (if last_seen_date s \<noteq> Some today
                    then s\<lparr>sent_keys := {}, last_seen_date := Some today\<rparr> else s);
              s2 = for_items config client now_local today current_hm plan s1
          in time_sleep (poll_interval_seconds config) s2)"

subsection \<open>The loop\<close>

text \<open>
  \<^verbatim>\<open>while True\<close> never returns; what can be observed of it is the state after any
  number of iterations. \<open>run_loop\<close> is the course of the iterations, one per clock
  reading of a list, in order, each \<^verbatim>\<open>time.sleep\<close> taken as returning; \<open>run\<close> is that
  course from the state in which \<^verbatim>\<open>run()\<close> enters the loop.
\<close>

fun run_loop ::
  "AppConfig \<Rightarrow> Client \<Rightarrow> ReminderItem list \<Rightarrow> clock_reading list \<Rightarrow> state \<Rightarrow> state" where
  "run_loop config client plan [] s = s"
| "run_loop config client plan (now # nows) s =
     run_loop config client plan nows (iteration config client plan now s)"

text \<open>
  The loop with the exceptions of \<^verbatim>\<open>time.sleep\<close>: an iteration runs up to its call of
  \<^verbatim>\<open>time.sleep\<close>; when that call raises, the exception leaves the loop and
  \<^verbatim>\<open>run()\<close> (\<open>Inl\<close> of the error and the state at that moment); otherwise the next
  iteration follows. \<open>Inr\<close> is the state after all the readings of the list. What the
  client raises is caught inside the iteration (see \<open>attempt\<close>).
\<close>

fun while_true ::
  "AppConfig \<Rightarrow> sleep_outcome \<Rightarrow> Client \<Rightarrow> ReminderItem list \<Rightarrow> clock_reading list \<Rightarrow>
   state \<Rightarrow> (error \<times> state) + state" where
  "while_true config sleep client plan [] s = Inr s"
| "while_true config sleep client plan (now # nows) s =
     (let s' = iteration config client plan now s in
      case sleep (poll_interval_seconds config) of
        Some e \<Rightarrow> Inl (e, s')
      | None \<Rightarrow> while_true config sleep client plan nows s')"

definition startup :: "AppConfig \<Rightarrow> state" where
  "startup config =
     \<lparr>sent_keys = {}, last_seen_date = None,
      trace = [LogInfo ''Diet reminder bot started'',
               LogInfo (''Timezone='' @ timezone config @ '' | Start date='' @
                        isoformat (start_date config))]\<rparr>"

definition run :: "AppConfig \<Rightarrow> Client \<Rightarrow> clock_reading list \<Rightarrow> state" where
  "run config client nows = run_loop config client DAILY_PLAN nows (startup config)"

subsection \<open>Reading the trace\<close>

text \<open>
  The dispatch attempts for entry \<open>E\<close> on date \<open>D\<close> are the calls of
  \<^verbatim>\<open>trigger_event\<close> with that entry at a time of that date.
\<close>

fun is_attempt :: "date \<Rightarrow> ReminderItem \<Rightarrow> event \<Rightarrow> bool" where
  "is_attempt D E (TriggerEvent t item) = (date_of t = D \<and> item = E)"
| "is_attempt D E ev = False"

definition attempts :: "date \<Rightarrow> ReminderItem \<Rightarrow> event list \<Rightarrow> nat" where
  "attempts D E evs = length (filter (is_attempt D E) evs)"

text \<open>The entries handed to \<^verbatim>\<open>trigger_event\<close>, in the order of the calls.\<close>

fun triggered :: "event list \<Rightarrow> ReminderItem list" where
  "triggered [] = []"
| "triggered (TriggerEvent t item # evs) = item # triggered evs"
| "triggered (ev # evs) = triggered evs"

subsection \<open>The values one iteration works with\<close>

text \<open>
  Lines 209, 210 and 212: \<^verbatim>\<open>today\<close>, \<^verbatim>\<open>current_hm\<close> and the test
  \<^verbatim>\<open>today < config.start_date\<close>, as functions of the configuration and the clock
  reading of the iteration.
\<close>

definition today_of :: "AppConfig \<Rightarrow> clock_reading \<Rightarrow> date" where
  "today_of config now = date_of (now_local_of config now)"

definition current_hm_of :: "AppConfig \<Rightarrow> clock_reading \<Rightarrow> string" where
  "current_hm_of config now = strftime_HM (now_local_of config now)"

definition before_start :: "AppConfig \<Rightarrow> clock_reading \<Rightarrow> bool" where
  "before_start config now = date_lt (today_of config now) (start_date config)"

text \<open>The number of \<^verbatim>\<open>time.sleep\<close> calls in a trace: one ends every iteration.\<close>

fun is_sleep :: "event \<Rightarrow> bool" where
  "is_sleep (Sleep n) = True"
| "is_sleep ev = False"

definition sleeps :: "event list \<Rightarrow> nat" where
  "sleeps evs = length (filter is_sleep evs)"

text \<open>The times handed to \<^verbatim>\<open>trigger_event\<close>, in the order of the calls.\<close>

fun trigger_times :: "event list \<Rightarrow> datetime list" where
  "trigger_times [] = []"
| "trigger_times (TriggerEvent t item # evs) = t # trigger_times evs"
| "trigger_times (ev # evs) = trigger_times evs"

text \<open>
  The Plan Lookup contract of the specification, in its own words: the entries whose
  time of day exactly equals the argument, in Plan order. The program has no such
  function; its loop tests every entry in turn (line 221).
\<close>

definition due_entries :: "string \<Rightarrow> ReminderItem list \<Rightarrow> ReminderItem list" where
  "due_entries current_hm plan = filter (\<lambda>entry. time_24h entry = current_hm) plan"

text \<open>
  The course of a run as far as the entries are concerned: the ledger, the last-seen
  date, the entries and times handed to \<^verbatim>\<open>trigger_event\<close> and the number of
  \<^verbatim>\<open>time.sleep\<close> calls. The log records and the outcomes of the client are left out.
\<close>

definition course ::
  "state \<Rightarrow> string set \<times> date option \<times> ReminderItem list \<times> datetime list \<times> nat" where
  "course s =
     (sent_keys s, last_seen_date s, triggered (trace s), trigger_times (trace s),
      sleeps (trace s))"

text \<open>
  What can be observed of \<open>while_true\<close>: whether it was left by an exception, and by
  which one, and the course up to that moment.
\<close>

definition loop_result ::
  "(error \<times> state) + state \<Rightarrow>
   (error \<times> string set \<times> date option \<times> ReminderItem list \<times> datetime list \<times> nat) +
   (string set \<times> date option \<times> ReminderItem list \<times> datetime list \<times> nat)" where
  "loop_result r = (case r of Inl (e, s) \<Rightarrow> Inl (e, course s) | Inr s \<Rightarrow> Inr (course s))"

subsection \<open>Concrete inputs\<close>

text \<open>
  A configuration with the defaults of \<^verbatim>\<open>load_config\<close> (start date 2026-02-21, poll
  interval 20 seconds), and one whose start date is 2026-03-05.
\<close>

definition example_config :: AppConfig where
  "example_config =
     \<lparr>twilio_account_sid = ''AC0'', twilio_auth_token = ''token'',
      twilio_whatsapp_number = ''whatsapp:+14155238886'',
      sister_whatsapp_number = ''whatsapp:+911234567890'',
      timezone = ''Asia/Kolkata'', start_date = \<lparr>year = 2026, month = 2, day = 21\<rparr>,
      calcium_reminder_weekday = 5, calcium_reminder_time = ''09:00'',
      poll_interval_seconds = 20\<rparr>"

definition march_config :: AppConfig where
  "march_config = example_config\<lparr>start_date := \<lparr>year = 2026, month = 3, day = 5\<rparr>\<rparr>"

text \<open>A clock that shows the given local time, whatever the timezone asked for.\<close>

definition clock_at :: "nat \<Rightarrow> nat \<Rightarrow> nat \<Rightarrow> nat \<Rightarrow> nat \<Rightarrow> nat \<Rightarrow> nat \<Rightarrow> clock_reading" where
  "clock_at y mo d h mi sec us tz =
     \<lparr>year = y, month = mo, day = d, hour = h, minute = mi, second = sec, microsecond = us\<rparr>"

text \<open>A client whose every call returns, and one whose every call raises.\<close>

definition client_ok :: Client where
  "client_ok evs from_whatsapp to_whatsapp body = None"

definition client_fails :: Client where
  "client_fails evs from_whatsapp to_whatsapp body = Some ''HTTP 401 error''"

text \<open>Two Plan entries with the same time and title and different details.\<close>

definition water_first :: ReminderItem where
  "water_first = \<lparr>time_24h = ''08:30'', title = ''Water'', details = ''Drink one glass.''\<rparr>"

definition water_second :: ReminderItem where
  "water_second = \<lparr>time_24h = ''08:30'', title = ''Water'', details = ''Drink two glasses.''\<rparr>"

text \<open>A third entry at 08:30, with a title of its own.\<close>

definition vitamins :: ReminderItem where
  "vitamins = \<lparr>time_24h = ''08:30'', title = ''Vitamins'', details = ''Take the vitamins.''\<rparr>"

text \<open>
  A \<^verbatim>\<open>time.sleep\<close> that refuses a negative interval, as Python's does, and returns
  for every other one; and the default configuration with a negative poll interval
  (\<^verbatim>\<open>POLL_INTERVAL_SECONDS=-1\<close>).
\<close>

definition sleep_refuses_negative :: sleep_outcome where
  "sleep_refuses_negative seconds =
     (if seconds < 0 then Some (ValueError ''sleep length must be non-negative'') else None)"

definition negative_config :: AppConfig where
  "negative_config = example_config\<lparr>poll_interval_seconds := - 1\<rparr>"

section \<open>Normalising a WhatsApp number\<close>

lemma strip_fixed:
  assumes "w \<noteq> []" "\<not> isspace (hd w)" "\<not> isspace (last w)"
  shows "strip w = w"
proof -
  have a: "dropWhile isspace w = w"
    using assms by (simp add: dropWhile_eq_self_iff)
  have "hd (rev w) = last w"
    using assms(1) by (simp add: hd_rev)
  then have b: "dropWhile isspace (rev w) = rev w"
    using assms by (simp add: dropWhile_eq_self_iff)
  show ?thesis by (simp add: strip_def a b)
qed

lemma strip_ends:
  assumes "strip s \<noteq> []"
  shows "\<not> isspace (hd (strip s)) \<and> \<not> isspace (last (strip s))"
proof -
  define ys where "ys = dropWhile isspace s"
  define zs where "zs = dropWhile isspace (rev ys)"
  have st: "strip s = rev zs" by (simp add: strip_def ys_def zs_def)
  with assms have zne: "zs \<noteq> []" by simp
  then have hz: "\<not> isspace (hd zs)"
    unfolding zs_def by (rule hd_dropWhile)
  from zne have yne: "ys \<noteq> []" by (auto simp: zs_def)
  then have hy: "\<not> isspace (hd ys)"
    unfolding ys_def by (rule hd_dropWhile)
  obtain us where us: "rev ys = us @ zs"
    by (metis takeWhile_dropWhile_id zs_def)
  have "last zs = last (rev ys)" using us zne by simp
  also have "\<dots> = hd ys" using yne by (simp add: last_rev)
  finally have lz: "last zs = hd ys" .
  have "hd (rev zs) = last zs" using zne by (simp add: hd_rev)
  moreover have "last (rev zs) = hd zs" using zne by (simp add: last_rev)
  ultimately show ?thesis using st hz hy lz by simp
qed

lemma startswith_hd: "startswith v (c # p) \<Longrightarrow> hd v = c"
  by (cases v) (auto simp: startswith_def)

lemma not_isspace_w: "\<not> isspace CHR ''w''"
  by (simp add: isspace_def)

lemma normalize_fixed:
  assumes "startswith v ''whatsapp:''" "\<not> isspace (last v)"
  shows "normalize_whatsapp_number v env_name = Inr v"
proof -
  have "v \<noteq> []" using assms(1) by (auto simp: startswith_def)
  moreover have "hd v = CHR ''w''" using assms(1) by (rule startswith_hd)
  ultimately have "strip v = v" using assms(2) not_isspace_w by (simp add: strip_fixed)
  then show ?thesis using assms(1) by (simp add: normalize_whatsapp_number_def)
qed

text \<open>
  Claim C10. \<^verbatim>\<open>_normalize_whatsapp_number\<close> raises \<^verbatim>\<open>ValueError\<close> exactly when the
  stripped input starts with neither \<^verbatim>\<open>whatsapp:\<close> nor \<^verbatim>\<open>+\<close>. Whenever it returns, the
  result starts with \<^verbatim>\<open>whatsapp:\<close>, and normalising the result again (under any variable
  name) returns it unchanged.
\<close>

theorem normalize_whatsapp_number_spec:
  "((\<exists>msg. normalize_whatsapp_number raw env_name = Inl (ValueError msg)) \<longleftrightarrow>
      (\<not> startswith (strip raw) ''whatsapp:'' \<and> \<not> startswith (strip raw) ''+'')) \<and>
   (\<forall>out. normalize_whatsapp_number raw env_name = Inr out \<longrightarrow>
      startswith out ''whatsapp:'' \<and>
      (\<forall>env_name'. normalize_whatsapp_number out env_name' = Inr out))"
proof (intro conjI allI impI)
  show "(\<exists>msg. normalize_whatsapp_number raw env_name = Inl (ValueError msg)) \<longleftrightarrow>
      (\<not> startswith (strip raw) ''whatsapp:'' \<and> \<not> startswith (strip raw) ''+'')"
    by (auto simp: normalize_whatsapp_number_def Let_def)
next
  fix out assume h: "normalize_whatsapp_number raw env_name = Inr out"
  show "startswith out ''whatsapp:''"
    using h by (auto simp: normalize_whatsapp_number_def Let_def startswith_def split: if_splits)
next
  fix out env_name'
  assume h: "normalize_whatsapp_number raw env_name = Inr out"
  define v where "v = strip raw"
  have "(startswith v ''whatsapp:'' \<and> out = v) \<or> (startswith v ''+'' \<and> out = ''whatsapp:'' @ v)"
    using h unfolding normalize_whatsapp_number_def Let_def v_def
    by (simp split: if_splits)
  then consider (a) "startswith v ''whatsapp:''" "out = v"
    | (b) "startswith v ''+''" "out = ''whatsapp:'' @ v"
    by blast
  then show "normalize_whatsapp_number out env_name' = Inr out"
  proof cases
    case a
    then have "v \<noteq> []" by (auto simp: startswith_def)
    then have "\<not> isspace (last v)" using strip_ends[of raw] by (simp add: v_def)
    then show ?thesis using a by (simp add: normalize_fixed)
  next
    case b
    then have ne: "v \<noteq> []" by (auto simp: startswith_def)
    then have "\<not> isspace (last v)" using strip_ends[of raw] by (simp add: v_def)
    then have "\<not> isspace (last out)" using b ne by simp
    moreover have "startswith out ''whatsapp:''" using b by (simp add: startswith_def)
    ultimately show ?thesis by (simp add: normalize_fixed)
  qed
qed

text \<open>
  The theorem at \<^verbatim>\<open>" +911234567890 "\<close>, which is normalised to
  \<^verbatim>\<open>whatsapp:+911234567890\<close>, and at \<^verbatim>\<open>"911234567890"\<close>, which is refused.
\<close>

theorem normalize_whatsapp_number_spec_witness:
  "normalize_whatsapp_number '' +911234567890 '' ''SISTER_WHATSAPP_NUMBER'' = Inr ''whatsapp:+911234567890'' \<and>
   startswith ''whatsapp:+911234567890'' ''whatsapp:'' \<and>
   normalize_whatsapp_number ''whatsapp:+911234567890'' ''SISTER_WHATSAPP_NUMBER'' = Inr ''whatsapp:+911234567890'' \<and>
   (\<exists>msg. normalize_whatsapp_number ''911234567890'' ''SISTER_WHATSAPP_NUMBER'' = Inl (ValueError msg))"
proof -
  have h: "normalize_whatsapp_number '' +911234567890 '' ''SISTER_WHATSAPP_NUMBER'' = Inr ''whatsapp:+911234567890''"
    by (simp add: normalize_whatsapp_number_def strip_def startswith_def isspace_def)
  have e: "\<not> startswith (strip ''911234567890'') ''whatsapp:'' \<and> \<not> startswith (strip ''911234567890'') ''+''"
    by (simp add: strip_def startswith_def isspace_def)
  from normalize_whatsapp_number_spec[of "'' +911234567890 ''" "''SISTER_WHATSAPP_NUMBER''"] h
  have "startswith ''whatsapp:+911234567890'' ''whatsapp:'' \<and>
     normalize_whatsapp_number ''whatsapp:+911234567890'' ''SISTER_WHATSAPP_NUMBER'' = Inr ''whatsapp:+911234567890''"
    by blast
  moreover from normalize_whatsapp_number_spec[of "''911234567890''" "''SISTER_WHATSAPP_NUMBER''"] e
  have "\<exists>msg. normalize_whatsapp_number ''911234567890'' ''SISTER_WHATSAPP_NUMBER'' = Inl (ValueError msg)"
    by blast
  ultimately show ?thesis using h by blast
qed

section \<open>Properties of the loop\<close>

subsection \<open>The attempt and the loop over the Plan\<close>

lemma triggered_append: "triggered (xs @ ys) = triggered xs @ triggered ys"
  by (induction xs rule: triggered.induct) simp_all

lemma trace_attempt:
  "trace (attempt config client t item key s) =
     trace s @
     [LogInfo (''Attempting reminder | key='' @ key), TriggerEvent t item,
      MessagesCreate (twilio_whatsapp_number config) (sister_whatsapp_number config)
        (build_whatsapp_message item t),
      (case client (trace s @ [LogInfo (''Attempting reminder | key='' @ key), TriggerEvent t item])
              (twilio_whatsapp_number config) (sister_whatsapp_number config)
              (build_whatsapp_message item t) of
         None \<Rightarrow> LogInfo (''Reminder success | key='' @ key)
       | Some e \<Rightarrow> LogException (''Reminder failed | key='' @ key @ '' | error='' @ e))]"
  by (simp add: attempt_def trigger_event_def send_whatsapp_def logging_info_def
      logging_exception_def sent_keys_add_def Let_def split: option.split)

lemma sent_keys_attempt:
  "sent_keys (attempt config client t item key s) = insert key (sent_keys s)"
  by (simp add: attempt_def trigger_event_def send_whatsapp_def logging_info_def
      logging_exception_def sent_keys_add_def Let_def split: option.split)

lemma last_seen_date_attempt:
  "last_seen_date (attempt config client t item key s) = last_seen_date s"
  by (simp add: attempt_def trigger_event_def send_whatsapp_def logging_info_def
      logging_exception_def sent_keys_add_def Let_def split: option.split)

lemma attempts_attempt:
  "attempts D E (trace (attempt config client t item key s)) =
     attempts D E (trace s) + (if date_of t = D \<and> item = E then 1 else 0)"
  by (simp add: trace_attempt attempts_def split: option.split)

lemma triggered_attempt:
  "triggered (trace (attempt config client t item key s)) = triggered (trace s) @ [item]"
  by (simp add: trace_attempt triggered_append split: option.split)

lemma sleeps_attempt:
  "sleeps (trace (attempt config client t item key s)) = sleeps (trace s)"
  by (simp add: trace_attempt sleeps_def split: option.split)

lemma item_step_eq:
  "item_step config client t today hm item s =
     (if time_24h item = hm \<and> dispatch_key today item \<notin> sent_keys s
      then attempt config client t item (dispatch_key today item) s else s)"
  by (simp add: item_step_def Let_def)

lemma item_step_skip:
  "\<not> (time_24h item = hm \<and> dispatch_key today item \<notin> sent_keys s) \<Longrightarrow>
   item_step config client t today hm item s = s"
  by (auto simp: item_step_def Let_def)

lemma item_step_attempt:
  "time_24h item = hm \<and> dispatch_key today item \<notin> sent_keys s \<Longrightarrow>
   item_step config client t today hm item s =
     attempt config client t item (dispatch_key today item) s"
  by (simp add: item_step_def Let_def)

lemma for_items_append:
  "for_items config client t today hm (xs @ ys) s =
     for_items config client t today hm ys (for_items config client t today hm xs s)"
  by (induction xs arbitrary: s) simp_all

lemma last_seen_date_for_items:
  "last_seen_date (for_items config client t today hm items s) = last_seen_date s"
  by (induction items arbitrary: s) (simp_all add: item_step_eq last_seen_date_attempt)

lemma sent_keys_for_items:
  "sent_keys (for_items config client t today hm items s) =
     sent_keys s \<union> dispatch_key today ` {e \<in> set items. time_24h e = hm}"
  by (induction items arbitrary: s) (auto simp: item_step_eq sent_keys_attempt)

lemma sleeps_for_items:
  "sleeps (trace (for_items config client t today hm items s)) = sleeps (trace s)"
  by (induction items arbitrary: s) (simp_all add: item_step_eq sleeps_attempt)

lemma attempts_for_items_other_date:
  "date_of t \<noteq> D \<Longrightarrow>
   attempts D E (trace (for_items config client t today hm items s)) = attempts D E (trace s)"
  by (induction items arbitrary: s) (simp_all add: item_step_eq attempts_attempt)

lemma attempts_for_items_recorded:
  "dispatch_key today E \<in> sent_keys s \<Longrightarrow>
   attempts D E (trace (for_items config client t today hm items s)) = attempts D E (trace s)"
proof (induction items arbitrary: s)
  case Nil
  then show ?case by simp
next
  case (Cons e items)
  show ?case
  proof (cases "time_24h e = hm \<and> dispatch_key today e \<notin> sent_keys s")
    case True
    then have ne: "e \<noteq> E" using Cons.prems by auto
    let ?s' = "attempt config client t e (dispatch_key today e) s"
    have "dispatch_key today E \<in> sent_keys ?s'"
      using Cons.prems by (simp add: sent_keys_attempt)
    then have "attempts D E (trace (for_items config client t today hm items ?s')) =
        attempts D E (trace ?s')"
      by (rule Cons.IH)
    then show ?thesis using ne by (simp add: item_step_attempt[OF True] attempts_attempt)
  next
    case False
    then show ?thesis using Cons by (simp add: item_step_skip)
  qed
qed

lemma attempts_for_items_bound:
  "attempts D E (trace (for_items config client t today hm items s)) \<le>
     attempts D E (trace s) + (if dispatch_key today E \<in> sent_keys s then 0 else 1)"
proof (induction items arbitrary: s)
  case Nil
  then show ?case by simp
next
  case (Cons e items)
  show ?case
  proof (cases "time_24h e = hm \<and> dispatch_key today e \<notin> sent_keys s")
    case False
    then show ?thesis using Cons.IH[of s] by (simp add: item_step_skip)
  next
    case due: True
    let ?s' = "attempt config client t e (dispatch_key today e) s"
    have st: "for_items config client t today hm (e # items) s =
        for_items config client t today hm items ?s'"
      by (simp add: item_step_attempt[OF due])
    show ?thesis
    proof (cases "e = E")
      case True
      have "dispatch_key today E \<in> sent_keys ?s'"
        using True by (simp add: sent_keys_attempt)
      then have "attempts D E (trace (for_items config client t today hm items ?s')) =
          attempts D E (trace ?s')"
        by (rule attempts_for_items_recorded)
      moreover have "attempts D E (trace ?s') \<le> attempts D E (trace s) + 1"
        by (simp add: attempts_attempt)
      moreover have "dispatch_key today E \<notin> sent_keys s"
        using due True by simp
      ultimately show ?thesis unfolding st by simp
    next
      case False
      have "attempts D E (trace ?s') = attempts D E (trace s)"
        using False by (simp add: attempts_attempt)
      moreover have "attempts D E (trace (for_items config client t today hm items ?s')) \<le>
          attempts D E (trace ?s') + (if dispatch_key today E \<in> sent_keys ?s' then 0 else 1)"
        by (rule Cons.IH)
      moreover have "(if dispatch_key today E \<in> sent_keys ?s' then 0 else 1::nat) \<le>
          (if dispatch_key today E \<in> sent_keys s then 0 else 1)"
        by (simp add: sent_keys_attempt)
      ultimately show ?thesis unfolding st by linarith
    qed
  qed
qed

lemma attempts_for_items_mono:
  "attempts D E (trace s) \<le> attempts D E (trace (for_items config client t today hm items s))"
proof (induction items arbitrary: s)
  case Nil
  then show ?case by simp
next
  case (Cons e items)
  have "attempts D E (trace s) \<le> attempts D E (trace (item_step config client t today hm e s))"
    by (simp add: item_step_eq attempts_attempt)
  also have "\<dots> \<le> attempts D E (trace (for_items config client t today hm items
      (item_step config client t today hm e s)))"
    by (rule Cons.IH)
  finally show ?case by simp
qed

lemma attempts_for_items_increase_recorded:
  assumes "attempts D E (trace s) < attempts D E (trace (for_items config client t today hm items s))"
  shows "dispatch_key today E \<in> sent_keys (for_items config client t today hm items s) \<and>
         date_of t = D \<and> E \<in> set items \<and> time_24h E = hm"
  using assms
proof (induction items arbitrary: s)
  case Nil
  then show ?case by simp
next
  case (Cons e items)
  let ?s' = "item_step config client t today hm e s"
  show ?case
  proof (cases "attempts D E (trace ?s') < attempts D E (trace (for_items config client t today hm items ?s'))")
    case True
    then show ?thesis using Cons.IH[of ?s'] by simp
  next
    case False
    then have "attempts D E (trace s) < attempts D E (trace ?s')"
      using Cons.prems by simp
    then have c: "time_24h e = hm \<and> dispatch_key today e \<notin> sent_keys s \<and> date_of t = D \<and> e = E"
      by (simp add: item_step_eq attempts_attempt split: if_splits)
    then have due: "time_24h e = hm \<and> dispatch_key today e \<notin> sent_keys s"
      by blast
    have "?s' = attempt config client t e (dispatch_key today e) s"
      by (rule item_step_attempt[OF due])
    then have "dispatch_key today e \<in> sent_keys ?s'"
      by (simp add: sent_keys_attempt)
    then have "dispatch_key today E \<in> sent_keys ?s'"
      using c by simp
    then have "dispatch_key today E \<in> sent_keys (for_items config client t today hm items ?s')"
      by (simp add: sent_keys_for_items)
    then show ?thesis using c by auto
  qed
qed

subsection \<open>One iteration\<close>

lemma trace_time_sleep: "trace (time_sleep n s) = trace s @ [Sleep n]"
  by (simp add: time_sleep_def)

lemma sent_keys_time_sleep: "sent_keys (time_sleep n s) = sent_keys s"
  by (simp add: time_sleep_def)

lemma last_seen_date_time_sleep: "last_seen_date (time_sleep n s) = last_seen_date s"
  by (simp add: time_sleep_def)

lemma attempts_time_sleep: "attempts D E (trace (time_sleep n s)) = attempts D E (trace s)"
  by (simp add: time_sleep_def attempts_def)

lemma triggered_time_sleep: "triggered (trace (time_sleep n s)) = triggered (trace s)"
  by (simp add: time_sleep_def triggered_append)

lemma sleeps_time_sleep: "sleeps (trace (time_sleep n s)) = Suc (sleeps (trace s))"
  by (simp add: time_sleep_def sleeps_def)

lemma date_of_now_local_of: "date_of (now_local_of config now) = today_of config now"
  by (simp add: today_of_def)

lemma iteration_before_start:
  "before_start config now \<Longrightarrow>
   iteration config client plan now s = time_sleep (poll_interval_seconds config) s"
  by (simp add: iteration_def before_start_def today_of_def Let_def)

lemma iteration_active:
  "\<not> before_start config now \<Longrightarrow>
   iteration config client plan now s =
     time_sleep (poll_interval_seconds config)
       (for_items config client (now_local_of config now) (today_of config now)
          (current_hm_of config now) plan
          (if last_seen_date s \<noteq> Some (today_of config now)
           then s\<lparr>sent_keys := {}, last_seen_date := Some (today_of config now)\<rparr> else s))"
  by (simp add: iteration_def before_start_def today_of_def current_hm_of_def Let_def)

lemma run_loop_append:
  "run_loop config client plan (xs @ ys) s =
     run_loop config client plan ys (run_loop config client plan xs s)"
  by (induction xs arbitrary: s) simp_all

lemma last_seen_date_iteration_active:
  "\<not> before_start config now \<Longrightarrow>
   last_seen_date (iteration config client plan now s) = Some (today_of config now)"
  by (simp add: iteration_active last_seen_date_time_sleep last_seen_date_for_items)

lemma sent_keys_iteration_active:
  "\<not> before_start config now \<Longrightarrow>
   sent_keys (iteration config client plan now s) =
     (if last_seen_date s \<noteq> Some (today_of config now) then {} else sent_keys s) \<union>
     dispatch_key (today_of config now) ` {e \<in> set plan. time_24h e = current_hm_of config now}"
  by (simp add: iteration_active sent_keys_time_sleep sent_keys_for_items)

subsection \<open>The polls of one day\<close>

lemma attempts_iteration_mono:
  "attempts D E (trace s) \<le> attempts D E (trace (iteration config client plan now s))"
proof (cases "before_start config now")
  case True
  then show ?thesis by (simp add: iteration_before_start attempts_time_sleep)
next
  case False
  let ?s1 = "if last_seen_date s \<noteq> Some (today_of config now)
             then s\<lparr>sent_keys := {}, last_seen_date := Some (today_of config now)\<rparr> else s"
  have "trace ?s1 = trace s" by simp
  then have "attempts D E (trace s) \<le>
      attempts D E (trace (for_items config client (now_local_of config now)
        (today_of config now) (current_hm_of config now) plan ?s1))"
    using attempts_for_items_mono[of D E ?s1] by simp
  then show ?thesis using False by (simp add: iteration_active attempts_time_sleep)
qed

lemma attempts_iteration_other:
  assumes "today_of config now \<noteq> D \<or> before_start config now"
  shows "attempts D E (trace (iteration config client plan now s)) = attempts D E (trace s)"
proof (cases "before_start config now")
  case True
  then show ?thesis by (simp add: iteration_before_start attempts_time_sleep)
next
  case False
  let ?s1 = "if last_seen_date s \<noteq> Some (today_of config now)
             then s\<lparr>sent_keys := {}, last_seen_date := Some (today_of config now)\<rparr> else s"
  have tr: "trace ?s1 = trace s" by simp
  from False assms have "date_of (now_local_of config now) \<noteq> D"
    by (simp add: date_of_now_local_of)
  then have "attempts D E (trace (for_items config client (now_local_of config now)
        (today_of config now) (current_hm_of config now) plan ?s1)) = attempts D E (trace ?s1)"
    by (rule attempts_for_items_other_date)
  then show ?thesis using False tr by (simp add: iteration_active attempts_time_sleep)
qed

lemma attempts_run_loop_other:
  "\<forall>now\<in>set nows. today_of config now \<noteq> D \<or> before_start config now \<Longrightarrow>
   attempts D E (trace (run_loop config client plan nows s)) = attempts D E (trace s)"
  by (induction nows arbitrary: s) (simp_all add: attempts_iteration_other)

lemma attempts_iteration_bound:
  "attempts D E (trace (iteration config client plan now s)) \<le> attempts D E (trace s) + 1"
proof (cases "before_start config now")
  case True
  then show ?thesis by (simp add: iteration_before_start attempts_time_sleep)
next
  case False
  let ?s1 = "if last_seen_date s \<noteq> Some (today_of config now)
             then s\<lparr>sent_keys := {}, last_seen_date := Some (today_of config now)\<rparr> else s"
  have tr: "trace ?s1 = trace s" by simp
  have "attempts D E (trace (for_items config client (now_local_of config now)
        (today_of config now) (current_hm_of config now) plan ?s1)) \<le>
      attempts D E (trace ?s1) +
        (if dispatch_key (today_of config now) E \<in> sent_keys ?s1 then 0 else 1)"
    by (rule attempts_for_items_bound)
  also have "\<dots> \<le> attempts D E (trace s) + 1" using tr by simp
  finally show ?thesis using False by (simp add: iteration_active attempts_time_sleep)
qed

lemma attempts_iteration_increase_recorded:
  assumes "attempts D E (trace s) < attempts D E (trace (iteration config client plan now s))"
  shows "dispatch_key (today_of config now) E \<in> sent_keys (iteration config client plan now s) \<and>
         today_of config now = D \<and> \<not> before_start config now \<and>
         E \<in> set plan \<and> time_24h E = current_hm_of config now"
proof (cases "before_start config now")
  case True
  then show ?thesis using assms by (simp add: iteration_before_start attempts_time_sleep)
next
  case False
  let ?s1 = "if last_seen_date s \<noteq> Some (today_of config now)
             then s\<lparr>sent_keys := {}, last_seen_date := Some (today_of config now)\<rparr> else s"
  let ?s2 = "for_items config client (now_local_of config now)
        (today_of config now) (current_hm_of config now) plan ?s1"
  have tr: "trace ?s1 = trace s" by simp
  have it: "iteration config client plan now s = time_sleep (poll_interval_seconds config) ?s2"
    using False by (rule iteration_active)
  from assms have "attempts D E (trace ?s1) < attempts D E (trace ?s2)"
    unfolding it tr by (simp add: attempts_time_sleep)
  then have "dispatch_key (today_of config now) E \<in> sent_keys ?s2 \<and>
      date_of (now_local_of config now) = D \<and> E \<in> set plan \<and>
      time_24h E = current_hm_of config now"
    by (rule attempts_for_items_increase_recorded)
  then show ?thesis using False unfolding it
    by (auto simp: sent_keys_time_sleep date_of_now_local_of)
qed

lemma attempts_iteration_recorded:
  assumes "last_seen_date s = Some (today_of config now)"
    and "dispatch_key (today_of config now) E \<in> sent_keys s"
  shows "attempts D E (trace (iteration config client plan now s)) = attempts D E (trace s)"
proof (cases "before_start config now")
  case True
  then show ?thesis by (simp add: iteration_before_start attempts_time_sleep)
next
  case False
  have "attempts D E (trace (for_items config client (now_local_of config now)
        (today_of config now) (current_hm_of config now) plan s)) = attempts D E (trace s)"
    using assms(2) by (rule attempts_for_items_recorded)
  then show ?thesis using False assms(1) by (simp add: iteration_active attempts_time_sleep)
qed

lemma sent_keys_iteration_same_day:
  assumes "last_seen_date s = Some D" and "today_of config now = D \<or> before_start config now"
  shows "sent_keys s \<subseteq> sent_keys (iteration config client plan now s) \<and>
         last_seen_date (iteration config client plan now s) = Some D"
proof (cases "before_start config now")
  case True
  then show ?thesis using assms
    by (simp add: iteration_before_start sent_keys_time_sleep last_seen_date_time_sleep)
next
  case False
  then show ?thesis using assms
    by (auto simp: sent_keys_iteration_active last_seen_date_iteration_active)
qed

lemma run_loop_day_inv:
  assumes "\<forall>now\<in>set nows. today_of config now = D \<or> before_start config now"
    and "last_seen_date s = Some D"
    and "attempts D E (trace s) \<le> c + 1"
    and "attempts D E (trace s) = c + 1 \<longrightarrow> dispatch_key D E \<in> sent_keys s"
  shows "attempts D E (trace (run_loop config client plan nows s)) \<le> c + 1"
  using assms
proof (induction nows arbitrary: s)
  case Nil
  then show ?case by simp
next
  case (Cons now nows)
  let ?s1 = "iteration config client plan now s"
  have day: "today_of config now = D \<or> before_start config now"
    using Cons.prems(1) by simp
  have keys: "sent_keys s \<subseteq> sent_keys ?s1" and seen: "last_seen_date ?s1 = Some D"
    using sent_keys_iteration_same_day[OF Cons.prems(2) day] by simp_all
  have bound: "attempts D E (trace ?s1) \<le> c + 1"
  proof (cases "attempts D E (trace s) = c + 1")
    case True
    then have "dispatch_key D E \<in> sent_keys s" using Cons.prems(4) by simp
    then have "attempts D E (trace ?s1) = attempts D E (trace s)"
      using day Cons.prems(2)
      by (cases "before_start config now")
         (simp_all add: attempts_iteration_other attempts_iteration_recorded)
    then show ?thesis using True by simp
  next
    case False
    then have "attempts D E (trace s) \<le> c" using Cons.prems(3) by simp
    then show ?thesis
      using attempts_iteration_bound[of D E config client plan now s] by simp
  qed
  have rec: "attempts D E (trace ?s1) = c + 1 \<longrightarrow> dispatch_key D E \<in> sent_keys ?s1"
  proof
    assume top: "attempts D E (trace ?s1) = c + 1"
    show "dispatch_key D E \<in> sent_keys ?s1"
    proof (cases "attempts D E (trace s) < attempts D E (trace ?s1)")
      case True
      then show ?thesis
        using attempts_iteration_increase_recorded[of D E s config client plan now] by auto
    next
      case False
      then have "attempts D E (trace s) = c + 1"
        using top attempts_iteration_mono[of D E s config client plan now] by simp
      then show ?thesis using Cons.prems(4) keys by auto
    qed
  qed
  have "attempts D E (trace (run_loop config client plan nows ?s1)) \<le> c + 1"
    using Cons.prems(1) seen bound rec by (intro Cons.IH) simp_all
  then show ?case by simp
qed

lemma run_loop_day_bound:
  assumes "\<forall>now\<in>set nows. today_of config now = D \<or> before_start config now"
  shows "attempts D E (trace (run_loop config client plan nows s)) \<le> attempts D E (trace s) + 1"
  using assms
proof (induction nows arbitrary: s)
  case Nil
  then show ?case by simp
next
  case (Cons now nows)
  let ?s1 = "iteration config client plan now s"
  show ?case
  proof (cases "before_start config now")
    case True
    then have "attempts D E (trace ?s1) = attempts D E (trace s)"
      by (simp add: attempts_iteration_other)
    moreover have "attempts D E (trace (run_loop config client plan nows ?s1)) \<le>
        attempts D E (trace ?s1) + 1"
      using Cons.prems by (intro Cons.IH) simp
    ultimately show ?thesis by simp
  next
    case False
    then have day: "today_of config now = D" using Cons.prems by simp
    have seen: "last_seen_date ?s1 = Some D"
      using False day by (simp add: last_seen_date_iteration_active)
    have bound: "attempts D E (trace ?s1) \<le> attempts D E (trace s) + 1"
      by (rule attempts_iteration_bound)
    have rec: "attempts D E (trace ?s1) = attempts D E (trace s) + 1 \<longrightarrow>
        dispatch_key D E \<in> sent_keys ?s1"
      using attempts_iteration_increase_recorded[of D E s config client plan now] by auto
    have "attempts D E (trace (run_loop config client plan nows ?s1)) \<le>
        attempts D E (trace s) + 1"
      using Cons.prems seen bound rec by (intro run_loop_day_inv) simp_all
    then show ?thesis by simp
  qed
qed

lemma attempts_startup: "attempts D E (trace (startup config)) = 0"
  by (simp add: startup_def attempts_def)

lemma for_items_all_recorded:
  "\<forall>e\<in>set items. time_24h e = hm \<longrightarrow> dispatch_key today e \<in> sent_keys s \<Longrightarrow>
   for_items config client t today hm items s = s"
  by (induction items) (simp_all add: item_step_skip)

lemma iteration_repeat:
  assumes "today_of config now2 = today_of config now1"
    and "current_hm_of config now2 = current_hm_of config now1"
  shows "iteration config client plan now2 (iteration config client plan now1 s) =
         time_sleep (poll_interval_seconds config) (iteration config client plan now1 s)"
proof (cases "before_start config now1")
  case True
  then have "before_start config now2" using assms(1) by (simp add: before_start_def)
  then show ?thesis by (simp add: iteration_before_start)
next
  case False
  then have act: "\<not> before_start config now2" using assms(1) by (simp add: before_start_def)
  let ?s1 = "iteration config client plan now1 s"
  have seen: "last_seen_date ?s1 = Some (today_of config now2)"
    using False assms(1) by (simp add: last_seen_date_iteration_active)
  have "\<forall>e\<in>set plan. time_24h e = current_hm_of config now2 \<longrightarrow>
      dispatch_key (today_of config now2) e \<in> sent_keys ?s1"
    using False assms by (simp add: sent_keys_iteration_active)
  then have "for_items config client (now_local_of config now2) (today_of config now2)
      (current_hm_of config now2) plan ?s1 = ?s1"
    by (rule for_items_all_recorded)
  then show ?thesis using act seen by (simp add: iteration_active)
qed

subsection \<open>Further facts about runs\<close>

lemma today_of_clock_at:
  "today_of config (clock_at y mo d h mi sec us) = \<lparr>year = y, month = mo, day = d\<rparr>"
  by (simp add: today_of_def now_local_of_def replace_second_microsecond_def date_of_def
      clock_at_def)

lemma attempts_for_items_unchanged:
  assumes "E \<notin> set items \<or> time_24h E \<noteq> hm \<or> date_of t \<noteq> D \<or>
           dispatch_key today E \<in> sent_keys s"
  shows "attempts D E (trace (for_items config client t today hm items s)) = attempts D E (trace s)"
proof (rule ccontr)
  assume "attempts D E (trace (for_items config client t today hm items s)) \<noteq> attempts D E (trace s)"
  then have inc: "attempts D E (trace s) < attempts D E (trace (for_items config client t today hm items s))"
    using attempts_for_items_mono[of D E s config client t today hm items] by simp
  then have "date_of t = D \<and> E \<in> set items \<and> time_24h E = hm"
    using attempts_for_items_increase_recorded by blast
  then have "dispatch_key today E \<in> sent_keys s" using assms by blast
  then have "attempts D E (trace (for_items config client t today hm items s)) = attempts D E (trace s)"
    by (rule attempts_for_items_recorded)
  then show False using inc by simp
qed

lemma attempts_for_items_first_pending:
  assumes "time_24h E = hm" and "dispatch_key today E \<notin> sent_keys s"
    and "\<forall>x\<in>set xs. dispatch_key today x \<noteq> dispatch_key today E"
  shows "attempts (date_of t) E (trace (for_items config client t today hm (xs @ E # ys) s)) =
         attempts (date_of t) E (trace s) + 1"
proof -
  let ?s1 = "for_items config client t today hm xs s"
  let ?s2 = "attempt config client t E (dispatch_key today E) ?s1"
  have "E \<notin> set xs" using assms(3) by auto
  then have a1: "attempts (date_of t) E (trace ?s1) = attempts (date_of t) E (trace s)"
    by (simp add: attempts_for_items_unchanged)
  have "dispatch_key today E \<notin> sent_keys ?s1"
    using assms(2,3) by (auto simp: sent_keys_for_items)
  then have st: "item_step config client t today hm E ?s1 = ?s2"
    using assms(1) by (simp add: item_step_attempt)
  have a2: "attempts (date_of t) E (trace ?s2) = attempts (date_of t) E (trace ?s1) + 1"
    by (simp add: attempts_attempt)
  have "dispatch_key today E \<in> sent_keys ?s2" by (simp add: sent_keys_attempt)
  then have a3: "attempts (date_of t) E (trace (for_items config client t today hm ys ?s2)) =
      attempts (date_of t) E (trace ?s2)"
    by (simp add: attempts_for_items_unchanged)
  show ?thesis using a1 a2 a3 by (simp add: for_items_append st)
qed

lemma sleeps_iteration:
  "sleeps (trace (iteration config client plan now s)) = Suc (sleeps (trace s))"
proof (cases "before_start config now")
  case True
  then show ?thesis by (simp add: iteration_before_start sleeps_time_sleep)
next
  case False
  let ?s1 = "if last_seen_date s \<noteq> Some (today_of config now)
             then s\<lparr>sent_keys := {}, last_seen_date := Some (today_of config now)\<rparr> else s"
  have "trace ?s1 = trace s" by simp
  then have "sleeps (trace (for_items config client (now_local_of config now)
        (today_of config now) (current_hm_of config now) plan ?s1)) = sleeps (trace s)"
    using sleeps_for_items[of config client "now_local_of config now" "today_of config now"
        "current_hm_of config now" plan ?s1] by simp
  then show ?thesis using False by (simp add: iteration_active sleeps_time_sleep)
qed

lemma sleeps_run_loop:
  "sleeps (trace (run_loop config client plan nows s)) = sleeps (trace s) + length nows"
  by (induction nows arbitrary: s) (simp_all add: sleeps_iteration)

lemma run_loop_same_day:
  assumes "last_seen_date s = Some D"
    and "\<forall>now\<in>set nows. today_of config now = D \<or> before_start config now"
  shows "sent_keys s \<subseteq> sent_keys (run_loop config client plan nows s) \<and>
         last_seen_date (run_loop config client plan nows s) = Some D"
  using assms
proof (induction nows arbitrary: s)
  case Nil
  then show ?case by simp
next
  case (Cons now nows)
  let ?s1 = "iteration config client plan now s"
  have day: "today_of config now = D \<or> before_start config now"
    using Cons.prems(2) by simp
  have s1: "sent_keys s \<subseteq> sent_keys ?s1 \<and> last_seen_date ?s1 = Some D"
    using Cons.prems(1) day by (rule sent_keys_iteration_same_day)
  then have "sent_keys ?s1 \<subseteq> sent_keys (run_loop config client plan nows ?s1) \<and>
      last_seen_date (run_loop config client plan nows ?s1) = Some D"
    using Cons.prems(2) by (intro Cons.IH) simp_all
  then show ?case using s1 by auto
qed

lemma attempts_run_loop_recorded:
  assumes "last_seen_date s = Some D" and "dispatch_key D E \<in> sent_keys s"
    and "\<forall>now\<in>set nows. today_of config now = D \<or> before_start config now"
  shows "attempts D E (trace (run_loop config client plan nows s)) = attempts D E (trace s)"
  using assms
proof (induction nows arbitrary: s)
  case Nil
  then show ?case by simp
next
  case (Cons now nows)
  let ?s1 = "iteration config client plan now s"
  have day: "today_of config now = D \<or> before_start config now"
    using Cons.prems(3) by simp
  have s1: "sent_keys s \<subseteq> sent_keys ?s1 \<and> last_seen_date ?s1 = Some D"
    using Cons.prems(1) day by (rule sent_keys_iteration_same_day)
  have a1: "attempts D E (trace ?s1) = attempts D E (trace s)"
    using day Cons.prems(1,2)
    by (cases "before_start config now")
       (simp_all add: attempts_iteration_other attempts_iteration_recorded)
  have "attempts D E (trace (run_loop config client plan nows ?s1)) = attempts D E (trace ?s1)"
    using s1 Cons.prems(2,3) by (intro Cons.IH) auto
  then show ?case using a1 by simp
qed

lemma date_lt_trans_le:
  "\<not> date_lt a c \<Longrightarrow> date_le a b \<Longrightarrow> \<not> date_lt b c"
  by (auto simp: date_lt_def date_le_def)

lemma trigger_times_append:
  "trigger_times (xs @ ys) = trigger_times xs @ trigger_times ys"
  by (induction xs rule: trigger_times.induct) simp_all

lemma trigger_times_attempt:
  "trigger_times (trace (attempt config client t item key s)) = trigger_times (trace s) @ [t]"
  by (simp add: trace_attempt trigger_times_append split: option.split)

lemma trigger_times_for_items:
  "set (trigger_times (trace (for_items config client t today hm items s))) \<subseteq>
     set (trigger_times (trace s)) \<union> {t}"
proof (induction items arbitrary: s)
  case Nil
  then show ?case by auto
next
  case (Cons e items)
  have "set (trigger_times (trace (item_step config client t today hm e s))) \<subseteq>
      set (trigger_times (trace s)) \<union> {t}"
    by (cases "time_24h e = hm \<and> dispatch_key today e \<notin> sent_keys s")
       (auto simp: item_step_skip item_step_attempt trigger_times_attempt)
  then show ?case
    using Cons.IH[of "item_step config client t today hm e s"] by auto
qed

lemma item_step_recorded:
  "dispatch_key today item \<in> sent_keys s \<Longrightarrow> item_step config client t today hm item s = s"
  by (simp add: item_step_skip)

subsection \<open>Due entries\<close>

lemma for_items_due_entries:
  "for_items config client t today hm (due_entries hm items) s =
   for_items config client t today hm items s"
proof (induction items arbitrary: s)
  case Nil
  then show ?case by (simp add: due_entries_def)
next
  case (Cons e items)
  then show ?case
    by (cases "time_24h e = hm") (simp_all add: due_entries_def item_step_skip)
qed

lemma triggered_for_items:
  "\<exists>sent. subseq sent (due_entries hm items) \<and>
     triggered (trace (for_items config client t today hm items s)) = triggered (trace s) @ sent"
proof (induction items arbitrary: s)
  case Nil
  then show ?case by (simp add: due_entries_def)
next
  case (Cons e items)
  show ?case
  proof (cases "time_24h e = hm \<and> dispatch_key today e \<notin> sent_keys s")
    case True
    let ?s' = "attempt config client t e (dispatch_key today e) s"
    obtain sent where sent: "subseq sent (due_entries hm items)"
      "triggered (trace (for_items config client t today hm items ?s')) =
         triggered (trace ?s') @ sent"
      using Cons.IH[of ?s'] by blast
    have "subseq (e # sent) (due_entries hm (e # items))"
      using True sent(1) by (simp add: due_entries_def)
    moreover have "triggered (trace (for_items config client t today hm (e # items) s)) =
        triggered (trace s) @ (e # sent)"
      using sent(2) by (simp add: item_step_attempt[OF True] triggered_attempt)
    ultimately show ?thesis by blast
  next
    case False
    obtain sent where sent: "subseq sent (due_entries hm items)"
      "triggered (trace (for_items config client t today hm items s)) =
         triggered (trace s) @ sent"
      using Cons.IH[of s] by blast
    have "subseq sent (due_entries hm (e # items))"
      using sent(1) by (auto simp: due_entries_def)
    moreover have "triggered (trace (for_items config client t today hm (e # items) s)) =
        triggered (trace s) @ sent"
      using sent(2) False by (simp add: item_step_skip)
    ultimately show ?thesis by blast
  qed
qed

lemma iteration_due_entries:
  "iteration config client (due_entries (current_hm_of config now) plan) now s =
   iteration config client plan now s"
  by (cases "before_start config now")
     (simp_all add: iteration_before_start iteration_active for_items_due_entries)

lemma triggered_iteration:
  "\<exists>sent. subseq sent (due_entries (current_hm_of config now) plan) \<and>
     triggered (trace (iteration config client plan now s)) = triggered (trace s) @ sent"
proof (cases "before_start config now")
  case True
  then have "triggered (trace (iteration config client plan now s)) = triggered (trace s) @ []"
    by (simp add: iteration_before_start triggered_time_sleep)
  then show ?thesis by blast
next
  case False
  let ?s1 = "if last_seen_date s \<noteq> Some (today_of config now)
             then s\<lparr>sent_keys := {}, last_seen_date := Some (today_of config now)\<rparr> else s"
  have tr: "trace ?s1 = trace s" by simp
  obtain sent where "subseq sent (due_entries (current_hm_of config now) plan)"
    "triggered (trace (for_items config client (now_local_of config now) (today_of config now)
        (current_hm_of config now) plan ?s1)) = triggered (trace ?s1) @ sent"
    using triggered_for_items by blast
  then show ?thesis using False unfolding tr
    by (auto simp: iteration_active triggered_time_sleep)
qed

subsection \<open>Entries that share a key\<close>

lemma dispatch_key_same_time_title:
  "time_24h a = time_24h b \<Longrightarrow> title a = title b \<Longrightarrow> dispatch_key D a = dispatch_key D b"
  by (simp add: dispatch_key_def)

lemma sent_keys_item_step_due:
  "time_24h e = hm \<Longrightarrow> dispatch_key today e \<in> sent_keys (item_step config client t today hm e s)"
  by (cases "dispatch_key today e \<in> sent_keys s")
     (simp_all add: item_step_skip item_step_attempt sent_keys_attempt)

lemma attempts_item_step_other:
  "e \<noteq> E \<Longrightarrow>
   attempts D E (trace (item_step config client t today hm e s)) = attempts D E (trace s)"
  by (cases "time_24h e = hm \<and> dispatch_key today e \<notin> sent_keys s")
     (simp_all add: item_step_skip item_step_attempt attempts_attempt)

lemma attempts_for_items_shadowed:
  assumes "time_24h a = time_24h b" and "title a = title b" and "a \<noteq> b" and "b \<notin> set xs"
  shows "attempts D b (trace (for_items config client t today hm (xs @ a # ys) s)) =
         attempts D b (trace s)"
proof -
  let ?s1 = "for_items config client t today hm xs s"
  let ?s2 = "item_step config client t today hm a ?s1"
  have a1: "attempts D b (trace ?s1) = attempts D b (trace s)"
    using assms(4) by (simp add: attempts_for_items_unchanged)
  have a2: "attempts D b (trace ?s2) = attempts D b (trace ?s1)"
    using assms(3) by (simp add: attempts_item_step_other)
  have "time_24h b \<noteq> hm \<or> dispatch_key today b \<in> sent_keys ?s2"
  proof (cases "time_24h b = hm")
    case True
    then have "dispatch_key today a \<in> sent_keys ?s2"
      using assms(1) by (simp add: sent_keys_item_step_due)
    then show ?thesis
      using dispatch_key_same_time_title[OF assms(1,2)] by simp
  next
    case False
    then show ?thesis by simp
  qed
  then have a3: "attempts D b (trace (for_items config client t today hm ys ?s2)) =
      attempts D b (trace ?s2)"
    by (intro attempts_for_items_unchanged) blast
  show ?thesis using a1 a2 a3 by (simp add: for_items_append)
qed

lemma attempts_iteration_shadowed:
  assumes "time_24h a = time_24h b" and "title a = title b" and "a \<noteq> b" and "b \<notin> set xs"
  shows "attempts D b (trace (iteration config client (xs @ a # ys) now s)) =
         attempts D b (trace s)"
proof (cases "before_start config now")
  case True
  then show ?thesis by (simp add: iteration_before_start attempts_time_sleep)
next
  case False
  let ?s1 = "if last_seen_date s \<noteq> Some (today_of config now)
             then s\<lparr>sent_keys := {}, last_seen_date := Some (today_of config now)\<rparr> else s"
  have tr: "trace ?s1 = trace s" by simp
  have "attempts D b (trace (for_items config client (now_local_of config now)
      (today_of config now) (current_hm_of config now) (xs @ a # ys) ?s1)) =
      attempts D b (trace ?s1)"
    using assms by (rule attempts_for_items_shadowed)
  then show ?thesis using False unfolding tr
    by (simp add: iteration_active attempts_time_sleep)
qed

lemma attempts_run_loop_shadowed:
  assumes "time_24h a = time_24h b" and "title a = title b" and "a \<noteq> b" and "b \<notin> set xs"
  shows "attempts D b (trace (run_loop config client (xs @ a # ys) nows s)) =
         attempts D b (trace s)"
proof (induction nows arbitrary: s)
  case Nil
  then show ?case by simp
next
  case (Cons now nows)
  then show ?case using attempts_iteration_shadowed[OF assms] by simp
qed

subsection \<open>The printed date is one-to-one\<close>

lemma digit_char_eq_iff: "digit_char m = digit_char n \<longleftrightarrow> m mod 10 = n mod 10"
proof -
  have d: "distinct ''0123456789''" by simp
  have "m mod 10 < length ''0123456789''" and "n mod 10 < length ''0123456789''" by simp_all
  then show ?thesis
    unfolding digit_char_def using d nth_eq_iff_index_eq by blast
qed

lemma div_mod_10_eq:
  fixes m n :: nat
  assumes "m div 10 = n div 10" and "m mod 10 = n mod 10"
  shows "m = n"
  by (metis assms div_mult_mod_eq)

lemma two_digits_inj:
  assumes "m < 100" and "n < 100" and "two_digits m = two_digits n"
  shows "m = n"
proof -
  from assms(3) have hi: "(m div 10) mod 10 = (n div 10) mod 10" and lo: "m mod 10 = n mod 10"
    by (simp_all add: two_digits_def digit_char_eq_iff)
  have "m div 10 < 10" and "n div 10 < 10" using assms(1,2) by simp_all
  then have "m div 10 = n div 10" using hi by simp
  then show ?thesis using lo by (rule div_mod_10_eq)
qed

lemma four_digits_inj:
  assumes "m < 10000" and "n < 10000" and "four_digits m = four_digits n"
  shows "m = n"
proof -
  from assms(3) have d3: "(m div 1000) mod 10 = (n div 1000) mod 10"
    and d2: "(m div 100) mod 10 = (n div 100) mod 10"
    and d1: "(m div 10) mod 10 = (n div 10) mod 10" and d0: "m mod 10 = n mod 10"
    by (simp_all add: four_digits_def digit_char_eq_iff)
  have "m div 1000 < 10" and "n div 1000 < 10" using assms(1,2) by simp_all
  then have e3: "m div 1000 = n div 1000" using d3 by simp
  have "m div 100 div 10 = m div 1000" and "n div 100 div 10 = n div 1000"
    by (simp_all add: div_mult2_eq[symmetric])
  then have "m div 100 div 10 = n div 100 div 10" using e3 by simp
  then have e2: "m div 100 = n div 100" using d2 by (rule div_mod_10_eq)
  have "m div 10 div 10 = m div 100" and "n div 10 div 10 = n div 100"
    by (simp_all add: div_mult2_eq[symmetric])
  then have "m div 10 div 10 = n div 10 div 10" using e2 by simp
  then have e1: "m div 10 = n div 10" using d1 by (rule div_mod_10_eq)
  then show ?thesis using d0 by (rule div_mod_10_eq)
qed

lemma length_isoformat: "length (isoformat d) = 10"
  by (simp add: isoformat_def four_digits_def two_digits_def)

lemma length_strftime_HM: "length (strftime_HM t) = 5"
  by (simp add: strftime_HM_def two_digits_def)

lemma length_current_hm_of: "length (current_hm_of config now) = 5"
  by (simp add: current_hm_of_def length_strftime_HM)

lemma days_in_month_le: "days_in_month y m \<le> 31"
  by (simp add: days_in_month_def)

lemma isoformat_inj:
  assumes "valid_date a" and "valid_date b" and "isoformat a = isoformat b"
  shows "a = b"
proof -
  have la: "year a < 10000" "month a < 100" "day a < 100"
    using assms(1) days_in_month_le[of "year a" "month a"] by (auto simp: valid_date_def)
  have lb: "year b < 10000" "month b < 100" "day b < 100"
    using assms(2) days_in_month_le[of "year b" "month b"] by (auto simp: valid_date_def)
  from assms(3) have "four_digits (year a) = four_digits (year b)"
    and "two_digits (month a) = two_digits (month b)"
    and "two_digits (day a) = two_digits (day b)"
    by (simp_all add: isoformat_def four_digits_def two_digits_def)
  then have "year a = year b" and "month a = month b" and "day a = day b"
    using la lb by (simp_all add: four_digits_inj two_digits_inj)
  then show ?thesis by simp
qed

lemma dispatch_key_eq_date:
  assumes "dispatch_key a e = dispatch_key b e'"
  shows "isoformat a = isoformat b"
proof -
  have "length (isoformat a) = length (isoformat b)" by (simp add: length_isoformat)
  then show ?thesis using assms by (simp add: dispatch_key_def)
qed

lemma dispatch_key_eq_same_length:
  assumes "length (time_24h e) = length (time_24h e')"
    and "dispatch_key D e = dispatch_key D e'"
  shows "time_24h e = time_24h e' \<and> title e = title e'"
  using assms by (simp add: dispatch_key_def)

subsection \<open>An entry with a time and title of its own\<close>

lemma attempts_for_items_first:
  assumes first: "\<forall>x\<in>set xs. \<not> (time_24h x = time_24h E \<and> title x = title E)"
    and "date_of t = today"
  shows "attempts today E (trace (for_items config client t today hm (xs @ E # ys) s)) =
         attempts today E (trace s) +
           (if time_24h E = hm \<and> dispatch_key today E \<notin> sent_keys s then 1 else 0)"
proof (cases "time_24h E = hm \<and> dispatch_key today E \<notin> sent_keys s")
  case True
  have "\<forall>x\<in>set xs. dispatch_key today x \<noteq> dispatch_key today E \<or> time_24h x \<noteq> hm"
  proof
    fix x assume x: "x \<in> set xs"
    show "dispatch_key today x \<noteq> dispatch_key today E \<or> time_24h x \<noteq> hm"
    proof (cases "time_24h x = hm")
      case False
      then show ?thesis by simp
    next
      case same: True
      then have "time_24h x = time_24h E" using True by simp
      moreover from this have "title x \<noteq> title E" using first x by blast
      ultimately show ?thesis by (simp add: dispatch_key_def)
    qed
  qed
  then have pend: "dispatch_key today E \<notin> sent_keys (for_items config client t today hm xs s)"
    using True by (auto simp: sent_keys_for_items)
  let ?s1 = "for_items config client t today hm xs s"
  let ?s2 = "attempt config client t E (dispatch_key today E) ?s1"
  have "E \<notin> set xs" using first by blast
  then have a1: "attempts today E (trace ?s1) = attempts today E (trace s)"
    by (simp add: attempts_for_items_unchanged)
  have st: "item_step config client t today hm E ?s1 = ?s2"
    using True pend by (simp add: item_step_attempt)
  have a2: "attempts today E (trace ?s2) = attempts today E (trace ?s1) + 1"
    using assms(2) by (simp add: attempts_attempt)
  have "dispatch_key today E \<in> sent_keys ?s2" by (simp add: sent_keys_attempt)
  then have a3: "attempts today E (trace (for_items config client t today hm ys ?s2)) =
      attempts today E (trace ?s2)"
    by (simp add: attempts_for_items_unchanged)
  show ?thesis using True a1 a2 a3 by (simp add: for_items_append st)
next
  case False
  then have "attempts today E (trace (for_items config client t today hm (xs @ E # ys) s)) =
      attempts today E (trace s)"
    by (intro attempts_for_items_unchanged) blast
  then show ?thesis using False by simp
qed

lemma iteration_first:
  assumes first: "\<forall>x\<in>set xs. \<not> (time_24h x = time_24h E \<and> title x = title E)"
    and len: "length (time_24h E) = 5"
    and act: "\<not> before_start config now"
    and day: "today_of config now = D"
  shows "attempts D E (trace (iteration config client (xs @ E # ys) now s)) =
           attempts D E (trace s) +
             (if time_24h E = current_hm_of config now \<and>
                 dispatch_key D E \<notin> (if last_seen_date s \<noteq> Some D then {} else sent_keys s)
              then 1 else 0) \<and>
         (dispatch_key D E \<in> sent_keys (iteration config client (xs @ E # ys) now s)) =
           (dispatch_key D E \<in> (if last_seen_date s \<noteq> Some D then {} else sent_keys s) \<or>
            time_24h E = current_hm_of config now)"
proof
  let ?plan = "xs @ E # ys"
  let ?s1 = "if last_seen_date s \<noteq> Some (today_of config now)
             then s\<lparr>sent_keys := {}, last_seen_date := Some (today_of config now)\<rparr> else s"
  have tr: "trace ?s1 = trace s" by simp
  have keys1: "sent_keys ?s1 = (if last_seen_date s \<noteq> Some D then {} else sent_keys s)"
    using day by simp
  have "attempts (today_of config now) E
      (trace (for_items config client (now_local_of config now) (today_of config now)
         (current_hm_of config now) ?plan ?s1)) =
      attempts (today_of config now) E (trace ?s1) +
        (if time_24h E = current_hm_of config now \<and>
            dispatch_key (today_of config now) E \<notin> sent_keys ?s1 then 1 else 0)"
    using first by (intro attempts_for_items_first) (simp_all add: date_of_now_local_of)
  then show "attempts D E (trace (iteration config client ?plan now s)) =
           attempts D E (trace s) +
             (if time_24h E = current_hm_of config now \<and>
                 dispatch_key D E \<notin> (if last_seen_date s \<noteq> Some D then {} else sent_keys s)
              then 1 else 0)"
    using act unfolding tr keys1 day
    by (cases "last_seen_date s = Some D") (simp_all add: iteration_active attempts_time_sleep day)
  have "(dispatch_key D E \<in> dispatch_key D ` {e \<in> set ?plan. time_24h e = current_hm_of config now}) =
      (time_24h E = current_hm_of config now)"
  proof
    assume "dispatch_key D E \<in> dispatch_key D ` {e \<in> set ?plan. time_24h e = current_hm_of config now}"
    then obtain e where e: "e \<in> set ?plan" "time_24h e = current_hm_of config now"
      "dispatch_key D E = dispatch_key D e" by auto
    have "length (time_24h E) = length (time_24h e)"
      using len e(2) by (simp add: length_current_hm_of)
    then have "time_24h E = time_24h e"
      using e(3) dispatch_key_eq_same_length by blast
    then show "time_24h E = current_hm_of config now" using e(2) by simp
  next
    assume "time_24h E = current_hm_of config now"
    then show "dispatch_key D E \<in> dispatch_key D ` {e \<in> set ?plan. time_24h e = current_hm_of config now}"
      by auto
  qed
  then show "(dispatch_key D E \<in> sent_keys (iteration config client ?plan now s)) =
           (dispatch_key D E \<in> (if last_seen_date s \<noteq> Some D then {} else sent_keys s) \<or>
            time_24h E = current_hm_of config now)"
    using act day by (simp add: sent_keys_iteration_active)
qed

lemma run_loop_first:
  assumes first: "\<forall>x\<in>set xs. \<not> (time_24h x = time_24h E \<and> title x = title E)"
    and len: "length (time_24h E) = 5"
    and start: "\<not> date_lt D (start_date config)"
    and days: "\<forall>now\<in>set nows. today_of config now = D"
    and seen: "last_seen_date s = Some D"
  shows "last_seen_date (run_loop config client (xs @ E # ys) nows s) = Some D \<and>
         attempts D E (trace (run_loop config client (xs @ E # ys) nows s)) =
           attempts D E (trace s) +
             (if dispatch_key D E \<notin> sent_keys s \<and>
                 (\<exists>now\<in>set nows. current_hm_of config now = time_24h E) then 1 else 0) \<and>
         (dispatch_key D E \<in> sent_keys (run_loop config client (xs @ E # ys) nows s)) =
           (dispatch_key D E \<in> sent_keys s \<or>
            (\<exists>now\<in>set nows. current_hm_of config now = time_24h E))"
  using days seen
proof (induction nows arbitrary: s)
  case Nil
  then show ?case by simp
next
  case (Cons now nows)
  let ?plan = "xs @ E # ys"
  let ?s1 = "iteration config client ?plan now s"
  have day: "today_of config now = D" using Cons.prems(1) by simp
  have act: "\<not> before_start config now" using start day by (simp add: before_start_def)
  have seen1: "last_seen_date ?s1 = Some D"
    using act day by (simp add: last_seen_date_iteration_active)
  have days': "\<forall>now\<in>set nows. today_of config now = D" using Cons.prems(1) by simp
  note it = iteration_first[OF first len act day, of client ys s]
  have a1: "attempts D E (trace ?s1) = attempts D E (trace s) +
      (if time_24h E = current_hm_of config now \<and> dispatch_key D E \<notin> sent_keys s then 1 else 0)"
    using it Cons.prems(2) by simp
  have k1: "(dispatch_key D E \<in> sent_keys ?s1) =
      (dispatch_key D E \<in> sent_keys s \<or> time_24h E = current_hm_of config now)"
    using it Cons.prems(2) by simp
  note ih = Cons.IH[OF days' seen1]
  show ?case
  proof (intro conjI)
    show "last_seen_date (run_loop config client ?plan (now # nows) s) = Some D"
      using ih by simp
    show "(dispatch_key D E \<in> sent_keys (run_loop config client ?plan (now # nows) s)) =
           (dispatch_key D E \<in> sent_keys s \<or>
            (\<exists>now\<in>set (now # nows). current_hm_of config now = time_24h E))"
      using ih k1 by auto
    show "attempts D E (trace (run_loop config client ?plan (now # nows) s)) =
           attempts D E (trace s) +
             (if dispatch_key D E \<notin> sent_keys s \<and>
                 (\<exists>now\<in>set (now # nows). current_hm_of config now = time_24h E) then 1 else 0)"
    proof (cases "dispatch_key D E \<in> sent_keys s")
      case True
      then show ?thesis using ih a1 k1 by simp
    next
      case False
      show ?thesis
      proof (cases "time_24h E = current_hm_of config now")
        case True
        then show ?thesis using ih a1 k1 False by auto
      next
        case False
        then show ?thesis using ih a1 k1 \<open>dispatch_key D E \<notin> sent_keys s\<close> by auto
      qed
    qed
  qed
qed

lemma attempts_run_loop_increase:
  assumes "attempts D E (trace s) < attempts D E (trace (run_loop config client plan nows s))"
  shows "E \<in> set plan \<and> (\<exists>now\<in>set nows. time_24h E = current_hm_of config now)"
  using assms
proof (induction nows arbitrary: s)
  case Nil
  then show ?case by simp
next
  case (Cons now nows)
  let ?s1 = "iteration config client plan now s"
  show ?case
  proof (cases "attempts D E (trace s) < attempts D E (trace ?s1)")
    case True
    then have "E \<in> set plan \<and> time_24h E = current_hm_of config now"
      using attempts_iteration_increase_recorded by blast
    then show ?thesis by simp
  next
    case False
    then have "attempts D E (trace ?s1) = attempts D E (trace s)"
      using attempts_iteration_mono[of D E s config client plan now] by simp
    then have "attempts D E (trace ?s1) < attempts D E (trace (run_loop config client plan nows ?s1))"
      using Cons.prems by simp
    then have "E \<in> set plan \<and> (\<exists>now\<in>set nows. time_24h E = current_hm_of config now)"
      by (rule Cons.IH)
    then show ?thesis by auto
  qed
qed

lemma attempted_entry_is_first:
  assumes "attempts D E (trace s) < attempts D E (trace (run_loop config client plan nows s))"
  shows "\<exists>xs ys. plan = xs @ E # ys \<and>
           (\<forall>x\<in>set xs. \<not> (time_24h x = time_24h E \<and> title x = title E)) \<and>
           length (time_24h E) = 5"
proof -
  from assms have mem: "E \<in> set plan"
    and "\<exists>now\<in>set nows. time_24h E = current_hm_of config now"
    using attempts_run_loop_increase by blast+
  then have len: "length (time_24h E) = 5"
    using length_current_hm_of by metis
  from mem obtain xs ys where plan: "plan = xs @ E # ys" and notin: "E \<notin> set xs"
    using split_list_first by metis
  have "\<forall>x\<in>set xs. \<not> (time_24h x = time_24h E \<and> title x = title E)"
  proof (intro ballI notI)
    fix x
    assume x: "x \<in> set xs" and same: "time_24h x = time_24h E \<and> title x = title E"
    from x obtain us vs where xs: "xs = us @ x # vs" using split_list by metis
    have "x \<noteq> E" using x notin by auto
    moreover have "E \<notin> set us" using notin xs by simp
    ultimately have "attempts D E (trace (run_loop config client (us @ x # (vs @ E # ys)) nows s)) =
        attempts D E (trace s)"
      using same by (intro attempts_run_loop_shadowed) simp_all
    then show False using assms plan xs by simp
  qed
  then show ?thesis using plan len by blast
qed

subsection \<open>The client does not change the course of the loop\<close>

lemma course_attempt:
  "course (attempt config client t item key s) =
     (insert key (sent_keys s), last_seen_date s, triggered (trace s) @ [item],
      trigger_times (trace s) @ [t], sleeps (trace s))"
  by (simp add: course_def sent_keys_attempt last_seen_date_attempt triggered_attempt
      trigger_times_attempt sleeps_attempt)

lemma course_item_step:
  assumes "course s1 = course s2"
  shows "course (item_step config client1 t today hm e s1) =
         course (item_step config client2 t today hm e s2)"
proof -
  from assms have k: "sent_keys s1 = sent_keys s2"
    and d: "last_seen_date s1 = last_seen_date s2"
    and tr: "triggered (trace s1) = triggered (trace s2)"
    and tt: "trigger_times (trace s1) = trigger_times (trace s2)"
    and n: "sleeps (trace s1) = sleeps (trace s2)"
    by (simp_all add: course_def)
  show ?thesis
  proof (cases "time_24h e = hm \<and> dispatch_key today e \<notin> sent_keys s1")
    case True
    then have due2: "time_24h e = hm \<and> dispatch_key today e \<notin> sent_keys s2"
      using k by simp
    show ?thesis
      unfolding item_step_attempt[OF True] item_step_attempt[OF due2] course_attempt
      using k d tr tt n by simp
  next
    case False
    then have skip2: "\<not> (time_24h e = hm \<and> dispatch_key today e \<notin> sent_keys s2)"
      using k by simp
    show ?thesis
      unfolding item_step_skip[OF False] item_step_skip[OF skip2] by (rule assms)
  qed
qed

lemma course_for_items:
  "course s1 = course s2 \<Longrightarrow>
   course (for_items config client1 t today hm items s1) =
   course (for_items config client2 t today hm items s2)"
proof (induction items arbitrary: s1 s2)
  case Nil
  then show ?case by simp
next
  case (Cons e items)
  have "course (item_step config client1 t today hm e s1) =
      course (item_step config client2 t today hm e s2)"
    using Cons.prems by (rule course_item_step)
  then show ?case using Cons.IH by simp
qed

lemma course_time_sleep:
  "course s1 = course s2 \<Longrightarrow> course (time_sleep n s1) = course (time_sleep n s2)"
  by (auto simp: course_def time_sleep_def triggered_append trigger_times_append sleeps_def)

lemma course_iteration:
  assumes "course s1 = course s2"
  shows "course (iteration config client1 plan now s1) =
         course (iteration config client2 plan now s2)"
proof (cases "before_start config now")
  case True
  have "course (time_sleep (poll_interval_seconds config) s1) =
      course (time_sleep (poll_interval_seconds config) s2)"
    using assms by (rule course_time_sleep)
  then show ?thesis by (simp only: iteration_before_start[OF True])
next
  case False
  let ?D = "today_of config now"
  let ?r1 = "if last_seen_date s1 \<noteq> Some ?D
             then s1\<lparr>sent_keys := {}, last_seen_date := Some ?D\<rparr> else s1"
  let ?r2 = "if last_seen_date s2 \<noteq> Some ?D
             then s2\<lparr>sent_keys := {}, last_seen_date := Some ?D\<rparr> else s2"
  from assms have k: "sent_keys s1 = sent_keys s2"
    and d: "last_seen_date s1 = last_seen_date s2"
    and tr: "triggered (trace s1) = triggered (trace s2)"
    and tt: "trigger_times (trace s1) = trigger_times (trace s2)"
    and n: "sleeps (trace s1) = sleeps (trace s2)"
    by (simp_all add: course_def)
  have "course ?r1 = course ?r2"
    by (cases "last_seen_date s2 = Some ?D") (simp_all add: course_def k d tr tt n)
  then have "course (for_items config client1 (now_local_of config now) ?D
        (current_hm_of config now) plan ?r1) =
      course (for_items config client2 (now_local_of config now) ?D
        (current_hm_of config now) plan ?r2)"
    by (rule course_for_items)
  then have "course (time_sleep (poll_interval_seconds config)
        (for_items config client1 (now_local_of config now) ?D
          (current_hm_of config now) plan ?r1)) =
      course (time_sleep (poll_interval_seconds config)
        (for_items config client2 (now_local_of config now) ?D
          (current_hm_of config now) plan ?r2))"
    by (rule course_time_sleep)
  then show ?thesis by (simp only: iteration_active[OF False])
qed

lemma course_run_loop:
  "course s1 = course s2 \<Longrightarrow>
   course (run_loop config client1 plan nows s1) = course (run_loop config client2 plan nows s2)"
proof (induction nows arbitrary: s1 s2)
  case Nil
  then show ?case by simp
next
  case (Cons now nows)
  have "course (iteration config client1 plan now s1) = course (iteration config client2 plan now s2)"
    using Cons.prems by (rule course_iteration)
  then show ?case using Cons.IH by simp
qed

lemma while_true_returns:
  "sleep (poll_interval_seconds config) = None \<Longrightarrow>
   while_true config sleep client plan nows s = Inr (run_loop config client plan nows s)"
  by (induction nows arbitrary: s) (simp_all add: Let_def)

lemma while_true_raises:
  "sleep (poll_interval_seconds config) = Some e \<Longrightarrow>
   while_true config sleep client plan (now # nows) s =
     Inl (e, iteration config client plan now s)"
  by (simp add: Let_def)

lemma while_true_eq:
  "while_true config sleep client plan nows s =
     (case sleep (poll_interval_seconds config) of
        None \<Rightarrow> Inr (run_loop config client plan nows s)
      | Some e \<Rightarrow>
          (case nows of
             [] \<Rightarrow> Inr s
           | now # rest \<Rightarrow> Inl (e, iteration config client plan now s)))"
proof (cases "sleep (poll_interval_seconds config)")
  case None
  then show ?thesis by (simp add: while_true_returns)
next
  case (Some e)
  then show ?thesis by (cases nows) (simp_all add: Let_def)
qed

lemma loop_result_while_true:
  assumes "course s1 = course s2"
  shows "loop_result (while_true config sleep client1 plan nows s1) =
         loop_result (while_true config sleep client2 plan nows s2)"
proof (cases "sleep (poll_interval_seconds config)")
  case None
  have "course (run_loop config client1 plan nows s1) = course (run_loop config client2 plan nows s2)"
    using assms by (rule course_run_loop)
  then show ?thesis using None by (simp add: while_true_returns loop_result_def)
next
  case (Some e)
  show ?thesis
  proof (cases nows)
    case Nil
    then show ?thesis using assms by (simp add: loop_result_def)
  next
    case (Cons now rest)
    have "course (iteration config client1 plan now s1) =
        course (iteration config client2 plan now s2)"
      using assms by (rule course_iteration)
    then show ?thesis using Some unfolding Cons by (simp add: Let_def loop_result_def)
  qed
qed

subsection \<open>The entries dispatched in an iteration\<close>

lemma triggered_for_items_exact:
  assumes "distinct (map (dispatch_key today) (due_entries hm items))"
  shows "triggered (trace (for_items config client t today hm items s)) =
         triggered (trace s) @
           filter (\<lambda>e. dispatch_key today e \<notin> sent_keys s) (due_entries hm items)"
  using assms
proof (induction items arbitrary: s)
  case Nil
  then show ?case by (simp add: due_entries_def)
next
  case (Cons e items)
  show ?case
  proof (cases "time_24h e = hm")
    case False
    then have "due_entries hm (e # items) = due_entries hm items"
      by (simp add: due_entries_def)
    then show ?thesis using False Cons by (simp add: item_step_skip)
  next
    case due: True
    then have de: "due_entries hm (e # items) = e # due_entries hm items"
      by (simp add: due_entries_def)
    have dist: "distinct (map (dispatch_key today) (due_entries hm items))"
      using Cons.prems unfolding de by simp
    have "dispatch_key today e \<notin> dispatch_key today ` set (due_entries hm items)"
      using Cons.prems unfolding de by simp
    then have fresh: "\<forall>x\<in>set (due_entries hm items). dispatch_key today x \<noteq> dispatch_key today e"
      by (metis image_eqI)
    show ?thesis
    proof (cases "dispatch_key today e \<in> sent_keys s")
      case True
      then show ?thesis
        unfolding de using Cons.IH[OF dist, of s] by (simp add: item_step_skip)
    next
      case False
      let ?s' = "attempt config client t e (dispatch_key today e) s"
      have st: "item_step config client t today hm e s = ?s'"
        using due False by (simp add: item_step_attempt)
      have "filter (\<lambda>x. dispatch_key today x \<notin> sent_keys ?s') (due_entries hm items) =
          filter (\<lambda>x. dispatch_key today x \<notin> sent_keys s) (due_entries hm items)"
        using fresh by (intro filter_cong) (auto simp: sent_keys_attempt)
      then show ?thesis
        unfolding de using Cons.IH[OF dist, of ?s'] False
        by (simp add: st triggered_attempt)
    qed
  qed
qed

lemma triggered_iteration_exact:
  assumes "\<not> before_start config now"
    and "distinct (map (dispatch_key (today_of config now))
           (due_entries (current_hm_of config now) plan))"
  shows "triggered (trace (iteration config client plan now s)) =
         triggered (trace s) @
           filter (\<lambda>e. dispatch_key (today_of config now) e \<notin>
                     (if last_seen_date s \<noteq> Some (today_of config now) then {} else sent_keys s))
             (due_entries (current_hm_of config now) plan)"
proof -
  let ?D = "today_of config now"
  let ?s1 = "if last_seen_date s \<noteq> Some ?D
             then s\<lparr>sent_keys := {}, last_seen_date := Some ?D\<rparr> else s"
  have tr: "trace ?s1 = trace s" by simp
  have keys: "sent_keys ?s1 = (if last_seen_date s \<noteq> Some ?D then {} else sent_keys s)" by simp
  have "triggered (trace (for_items config client (now_local_of config now) ?D
        (current_hm_of config now) plan ?s1)) =
      triggered (trace ?s1) @
        filter (\<lambda>e. dispatch_key ?D e \<notin> sent_keys ?s1) (due_entries (current_hm_of config now) plan)"
    using assms(2) by (rule triggered_for_items_exact)
  then show ?thesis
    using assms(1) unfolding tr keys by (simp add: iteration_active triggered_time_sleep)
qed

section \<open>The claims about the scheduler\<close>

subsection \<open>At most one attempt per entry and day\<close>

text \<open>
  Claim C1, as amended. Take a run of the loop from its start, a date \<open>D\<close> and a Plan
  entry \<open>E\<close>. If the polls that observe \<open>D\<close> form one stretch of the run, broken at
  most by polls whose date is before the start date (they do nothing), then at most one
  dispatch attempt is made for \<open>(D, E)\<close> in the whole run, whatever the client does. The
  run is split as \<open>pre @ mid @ post\<close>: no poll of \<open>pre\<close> or \<open>post\<close> is an active poll
  on \<open>D\<close>, every poll of \<open>mid\<close> is on \<open>D\<close> or before the start date. Moreover a poll
  that shows the date and the minute of the poll right before it only sleeps, from any
  state: it dispatches nothing more.
\<close>

theorem at_most_one_attempt_per_day:
  assumes "nows = pre @ mid @ post"
    and "\<forall>now\<in>set pre \<union> set post. today_of config now \<noteq> D \<or> before_start config now"
    and "\<forall>now\<in>set mid. today_of config now = D \<or> before_start config now"
  shows "attempts D E (trace (run_loop config client plan nows (startup config))) \<le> 1 \<and>
    (\<forall>s now1 now2.
       today_of config now2 = today_of config now1 \<and>
       current_hm_of config now2 = current_hm_of config now1 \<longrightarrow>
       iteration config client plan now2 (iteration config client plan now1 s) =
         time_sleep (poll_interval_seconds config) (iteration config client plan now1 s))"
proof -
  let ?s1 = "run_loop config client plan pre (startup config)"
  let ?s2 = "run_loop config client plan mid ?s1"
  have "attempts D E (trace ?s1) = 0"
    using assms(2) by (simp add: attempts_run_loop_other attempts_startup)
  moreover have "attempts D E (trace ?s2) \<le> attempts D E (trace ?s1) + 1"
    using assms(3) by (rule run_loop_day_bound)
  moreover have "attempts D E (trace (run_loop config client plan post ?s2)) =
      attempts D E (trace ?s2)"
    using assms(2) by (simp add: attempts_run_loop_other)
  ultimately have "attempts D E (trace (run_loop config client plan nows (startup config))) \<le> 1"
    by (simp add: assms(1) run_loop_append)
  then show ?thesis by (simp add: iteration_repeat)
qed

text \<open>
  The theorem at a run of four polls with the defaults of \<^verbatim>\<open>load_config\<close>: 08:29 and
  twice 08:30 on 2026-03-01, then 08:30 on 2026-03-02.
\<close>

theorem at_most_one_attempt_per_day_witness:
  "today_of example_config (clock_at 2026 3 1 8 29 58 0) = \<lparr>year = 2026, month = 3, day = 1\<rparr> \<and>
   today_of example_config (clock_at 2026 3 1 8 30 18 0) = \<lparr>year = 2026, month = 3, day = 1\<rparr> \<and>
   today_of example_config (clock_at 2026 3 1 8 30 38 0) = \<lparr>year = 2026, month = 3, day = 1\<rparr> \<and>
   today_of example_config (clock_at 2026 3 2 8 30 5 0) \<noteq> \<lparr>year = 2026, month = 3, day = 1\<rparr> \<and>
   attempts \<lparr>year = 2026, month = 3, day = 1\<rparr> (hd DAILY_PLAN)
     (trace (run_loop example_config client_ok DAILY_PLAN
        [clock_at 2026 3 1 8 29 58 0, clock_at 2026 3 1 8 30 18 0,
         clock_at 2026 3 1 8 30 38 0, clock_at 2026 3 2 8 30 5 0]
        (startup example_config))) \<le> 1"
proof -
  let ?D = "\<lparr>year = 2026, month = 3, day = 1\<rparr>"
  let ?mid = "[clock_at 2026 3 1 8 29 58 0, clock_at 2026 3 1 8 30 18 0,
               clock_at 2026 3 1 8 30 38 0]"
  let ?post = "[clock_at 2026 3 2 8 30 5 0]"
  have split: "?mid @ ?post = [] @ ?mid @ ?post" by simp
  have other: "\<forall>now\<in>set [] \<union> set ?post.
      today_of example_config now \<noteq> ?D \<or> before_start example_config now"
    by (simp add: today_of_clock_at)
  have same: "\<forall>now\<in>set ?mid. today_of example_config now = ?D \<or> before_start example_config now"
    by (simp add: today_of_clock_at)
  show ?thesis
    using at_most_one_attempt_per_day[OF split other same,
        where client = client_ok and E = "hd DAILY_PLAN" and plan = DAILY_PLAN]
    by (simp add: today_of_clock_at)
qed

text \<open>
  Claim C1 as stated, for every run, fails when the clock is set back over a day
  boundary. The polls show 08:30 on 2026-03-01, 08:30 on 2026-03-02 and 08:30 on
  2026-03-01 again: line 216 clears the ledger at the second and at the third poll, and
  the 08:30 entry is attempted twice for 2026-03-01.
\<close>

theorem at_most_one_attempt_counterexample:
  "attempts \<lparr>year = 2026, month = 3, day = 1\<rparr> (hd DAILY_PLAN)
     (trace (run example_config client_ok
        [clock_at 2026 3 1 8 30 0 0, clock_at 2026 3 2 8 30 0 0, clock_at 2026 3 1 8 30 0 0])) = 2"
  by code_simp

subsection \<open>A failed attempt consumes the slot\<close>

text \<open>
  Claim C2, as amended. Whatever the client does (return or raise), the attempt of lines
  228 to 236 leaves the key in \<^verbatim>\<open>sent_keys\<close>. If an iteration makes an attempt for entry
  \<open>E\<close> on date \<open>D\<close>, failed or not, the key of \<open>(D, E)\<close> is in the ledger after it, and
  no later poll attempts \<open>(D, E)\<close> again as long as every poll in between observes
  \<open>D\<close> or a date before the start date. And no outcome of the client ends the loop or
  changes its course: for any two clients, the ledger, the last-seen date, the entries and
  times handed to \<^verbatim>\<open>trigger_event\<close> and the number of \<^verbatim>\<open>time.sleep\<close> calls are the same
  after any list of polls, and the loop is left by an exception with one client exactly
  when it is with the other, by the same exception at the same point. The loop is left
  only by an exception of \<^verbatim>\<open>time.sleep\<close>: when \<^verbatim>\<open>time.sleep\<close> accepts the poll interval,
  every poll runs its iteration to the end; when it refuses the interval, its exception
  leaves the loop at the end of the first iteration.
\<close>

theorem attempt_recorded_whatever_the_outcome:
  "sent_keys (attempt config client t item key s) = insert key (sent_keys s) \<and>
   (attempts D E (trace s) < attempts D E (trace (iteration config client plan now s)) \<longrightarrow>
      dispatch_key D E \<in> sent_keys (iteration config client plan now s) \<and>
      (\<forall>nows. (\<forall>n\<in>set nows. today_of config n = D \<or> before_start config n) \<longrightarrow>
         attempts D E (trace (run_loop config client plan nows
             (iteration config client plan now s))) =
         attempts D E (trace (iteration config client plan now s)))) \<and>
   course (run_loop config client plan polls s) = course (run_loop config client' plan polls s) \<and>
   loop_result (while_true config sleep client plan polls s) =
     loop_result (while_true config sleep client' plan polls s) \<and>
   while_true config sleep client plan polls s =
     (case sleep (poll_interval_seconds config) of
        None \<Rightarrow> Inr (run_loop config client plan polls s)
      | Some e \<Rightarrow>
          (case polls of
             [] \<Rightarrow> Inr s
           | first # rest \<Rightarrow> Inl (e, iteration config client plan first s)))"
proof (intro conjI impI allI)
  show "sent_keys (attempt config client t item key s) = insert key (sent_keys s)"
    by (rule sent_keys_attempt)
next
  show "course (run_loop config client plan polls s) = course (run_loop config client' plan polls s)"
    by (rule course_run_loop) simp
next
  show "loop_result (while_true config sleep client plan polls s) =
     loop_result (while_true config sleep client' plan polls s)"
    by (rule loop_result_while_true) simp
next
  show "while_true config sleep client plan polls s =
     (case sleep (poll_interval_seconds config) of
        None \<Rightarrow> Inr (run_loop config client plan polls s)
      | Some e \<Rightarrow>
          (case polls of
             [] \<Rightarrow> Inr s
           | first # rest \<Rightarrow> Inl (e, iteration config client plan first s)))"
    by (rule while_true_eq)
next
  assume inc: "attempts D E (trace s) < attempts D E (trace (iteration config client plan now s))"
  then show "dispatch_key D E \<in> sent_keys (iteration config client plan now s)"
    using attempts_iteration_increase_recorded by blast
next
  fix nows
  assume inc: "attempts D E (trace s) < attempts D E (trace (iteration config client plan now s))"
    and day: "\<forall>n\<in>set nows. today_of config n = D \<or> before_start config n"
  let ?s1 = "iteration config client plan now s"
  have f: "dispatch_key D E \<in> sent_keys ?s1 \<and> today_of config now = D \<and>
      \<not> before_start config now"
    using inc attempts_iteration_increase_recorded by blast
  then have "last_seen_date ?s1 = Some D"
    by (simp add: last_seen_date_iteration_active)
  then show "attempts D E (trace (run_loop config client plan nows ?s1)) = attempts D E (trace ?s1)"
    using f day by (intro attempts_run_loop_recorded) simp_all
qed

text \<open>
  The theorem with a client that always raises: the 08:30 entry is attempted at 08:30 on
  2026-03-01, the attempt fails, and the polls at 08:30 and 23:59 of that day attempt
  nothing for it. Over the polls at 08:30 and 09:30 the course is the one with a client
  that always returns: the loop goes on after the failure at 08:30 and hands the 09:30
  entry to \<^verbatim>\<open>trigger_event\<close>. With the poll interval \<open>-1\<close> the loop is left by the
  \<^verbatim>\<open>ValueError\<close> of \<^verbatim>\<open>time.sleep\<close> after the first iteration, with either client.
\<close>

theorem attempt_recorded_whatever_the_outcome_witness:
  "attempts \<lparr>year = 2026, month = 3, day = 1\<rparr> (hd DAILY_PLAN) (trace (startup example_config)) <
     attempts \<lparr>year = 2026, month = 3, day = 1\<rparr> (hd DAILY_PLAN)
       (trace (iteration example_config client_fails DAILY_PLAN (clock_at 2026 3 1 8 30 2 0)
          (startup example_config))) \<and>
   today_of example_config (clock_at 2026 3 1 8 30 22 0) = \<lparr>year = 2026, month = 3, day = 1\<rparr> \<and>
   today_of example_config (clock_at 2026 3 1 23 59 42 0) = \<lparr>year = 2026, month = 3, day = 1\<rparr> \<and>
   dispatch_key \<lparr>year = 2026, month = 3, day = 1\<rparr> (hd DAILY_PLAN) \<in>
     sent_keys (iteration example_config client_fails DAILY_PLAN (clock_at 2026 3 1 8 30 2 0)
        (startup example_config)) \<and>
   attempts \<lparr>year = 2026, month = 3, day = 1\<rparr> (hd DAILY_PLAN)
     (trace (run_loop example_config client_fails DAILY_PLAN
        [clock_at 2026 3 1 8 30 22 0, clock_at 2026 3 1 23 59 42 0]
        (iteration example_config client_fails DAILY_PLAN (clock_at 2026 3 1 8 30 2 0)
           (startup example_config)))) =
   attempts \<lparr>year = 2026, month = 3, day = 1\<rparr> (hd DAILY_PLAN)
     (trace (iteration example_config client_fails DAILY_PLAN (clock_at 2026 3 1 8 30 2 0)
        (startup example_config))) \<and>
   course (run_loop example_config client_fails DAILY_PLAN
       [clock_at 2026 3 1 8 30 2 0, clock_at 2026 3 1 9 30 2 0] (startup example_config)) =
     course (run_loop example_config client_ok DAILY_PLAN
       [clock_at 2026 3 1 8 30 2 0, clock_at 2026 3 1 9 30 2 0] (startup example_config)) \<and>
   triggered (trace (run_loop example_config client_fails DAILY_PLAN
       [clock_at 2026 3 1 8 30 2 0, clock_at 2026 3 1 9 30 2 0] (startup example_config))) =
     [DAILY_PLAN ! 0, DAILY_PLAN ! 1] \<and>
   while_true example_config sleep_refuses_negative client_fails DAILY_PLAN
       [clock_at 2026 3 1 8 30 2 0, clock_at 2026 3 1 9 30 2 0] (startup example_config) =
     Inr (run_loop example_config client_fails DAILY_PLAN
       [clock_at 2026 3 1 8 30 2 0, clock_at 2026 3 1 9 30 2 0] (startup example_config)) \<and>
   loop_result (while_true negative_config sleep_refuses_negative client_fails DAILY_PLAN
       [clock_at 2026 3 1 8 30 2 0, clock_at 2026 3 1 9 30 2 0] (startup negative_config)) =
     loop_result (while_true negative_config sleep_refuses_negative client_ok DAILY_PLAN
       [clock_at 2026 3 1 8 30 2 0, clock_at 2026 3 1 9 30 2 0] (startup negative_config)) \<and>
   while_true negative_config sleep_refuses_negative client_ok DAILY_PLAN
       [clock_at 2026 3 1 8 30 2 0, clock_at 2026 3 1 9 30 2 0] (startup negative_config) =
     Inl (ValueError ''sleep length must be non-negative'',
          iteration negative_config client_ok DAILY_PLAN (clock_at 2026 3 1 8 30 2 0)
            (startup negative_config))"
proof -
  let ?D = "\<lparr>year = 2026, month = 3, day = 1\<rparr>"
  let ?s1 = "iteration example_config client_fails DAILY_PLAN (clock_at 2026 3 1 8 30 2 0)
     (startup example_config)"
  let ?nows = "[clock_at 2026 3 1 8 30 22 0, clock_at 2026 3 1 23 59 42 0]"
  let ?polls = "[clock_at 2026 3 1 8 30 2 0, clock_at 2026 3 1 9 30 2 0]"
  have inc: "attempts ?D (hd DAILY_PLAN) (trace (startup example_config)) <
      attempts ?D (hd DAILY_PLAN) (trace ?s1)"
    by code_simp
  have day: "\<forall>n\<in>set ?nows. today_of example_config n = ?D \<or> before_start example_config n"
    by (simp add: today_of_clock_at)
  have t1: "today_of example_config (clock_at 2026 3 1 8 30 22 0) = ?D"
    and t2: "today_of example_config (clock_at 2026 3 1 23 59 42 0) = ?D"
    by (simp_all add: today_of_clock_at)
  from attempt_recorded_whatever_the_outcome[where config = example_config
      and client = client_fails and plan = DAILY_PLAN and D = ?D and E = "hd DAILY_PLAN"
      and now = "clock_at 2026 3 1 8 30 2 0" and s = "startup example_config"] inc
  have rec: "dispatch_key ?D (hd DAILY_PLAN) \<in> sent_keys ?s1"
    and later: "\<forall>nows. (\<forall>n\<in>set nows. today_of example_config n = ?D \<or>
          before_start example_config n) \<longrightarrow>
        attempts ?D (hd DAILY_PLAN)
          (trace (run_loop example_config client_fails DAILY_PLAN nows ?s1)) =
        attempts ?D (hd DAILY_PLAN) (trace ?s1)"
    by blast+
  from later day have same: "attempts ?D (hd DAILY_PLAN)
      (trace (run_loop example_config client_fails DAILY_PLAN ?nows ?s1)) =
      attempts ?D (hd DAILY_PLAN) (trace ?s1)"
    by blast
  note loop = attempt_recorded_whatever_the_outcome[where config = example_config
      and sleep = sleep_refuses_negative and client = client_fails and client' = client_ok
      and plan = DAILY_PLAN and polls = ?polls and s = "startup example_config",
      THEN conjunct2, THEN conjunct2]
  note stop = attempt_recorded_whatever_the_outcome[where config = negative_config
      and sleep = sleep_refuses_negative and client = client_fails and client' = client_ok
      and plan = DAILY_PLAN and polls = ?polls and s = "startup negative_config",
      THEN conjunct2, THEN conjunct2, THEN conjunct2]
  note stop_ok = attempt_recorded_whatever_the_outcome[where config = negative_config
      and sleep = sleep_refuses_negative and client = client_ok
      and plan = DAILY_PLAN and polls = ?polls and s = "startup negative_config",
      THEN conjunct2, THEN conjunct2, THEN conjunct2, THEN conjunct2]
  have indep: "course (run_loop example_config client_fails DAILY_PLAN ?polls
        (startup example_config)) =
      course (run_loop example_config client_ok DAILY_PLAN ?polls (startup example_config))"
    by (rule loop[THEN conjunct1])
  have trig: "triggered (trace (run_loop example_config client_fails DAILY_PLAN ?polls
        (startup example_config))) = [DAILY_PLAN ! 0, DAILY_PLAN ! 1]"
    by code_simp
  have ret: "sleep_refuses_negative (poll_interval_seconds example_config) = None"
    by (simp add: sleep_refuses_negative_def example_config_def)
  have goes_on: "while_true example_config sleep_refuses_negative client_fails DAILY_PLAN ?polls
        (startup example_config) =
      Inr (run_loop example_config client_fails DAILY_PLAN ?polls (startup example_config))"
    using loop[THEN conjunct2, THEN conjunct2] by (simp only: ret option.case)
  have same_end: "loop_result (while_true negative_config sleep_refuses_negative client_fails
        DAILY_PLAN ?polls (startup negative_config)) =
      loop_result (while_true negative_config sleep_refuses_negative client_ok
        DAILY_PLAN ?polls (startup negative_config))"
    by (rule stop[THEN conjunct1])
  have neg: "sleep_refuses_negative (poll_interval_seconds negative_config) =
      Some (ValueError ''sleep length must be non-negative'')"
    by (simp add: sleep_refuses_negative_def negative_config_def example_config_def)
  have ends: "while_true negative_config sleep_refuses_negative client_ok DAILY_PLAN ?polls
        (startup negative_config) =
      Inl (ValueError ''sleep length must be non-negative'',
           iteration negative_config client_ok DAILY_PLAN (clock_at 2026 3 1 8 30 2 0)
             (startup negative_config))"
    using stop_ok by (simp only: neg option.case list.case)
  from inc t1 t2 rec same indep trig goes_on same_end ends show ?thesis
    by (intro conjI)
qed

text \<open>
  Claim C2 as stated says that a failed attempt for an entry on date \<open>D\<close> is never made
  again later on \<open>D\<close>. With a client that always raises, the 08:30 entry fails at 08:30
  on 2026-03-01 (the failure is logged); the next poll shows 2026-03-02, which clears the
  ledger; when the clock then shows 08:30 on 2026-03-01 again, the entry is attempted a
  second time for that date.
\<close>

theorem failed_attempt_reattempted_counterexample:
  "attempts \<lparr>year = 2026, month = 3, day = 1\<rparr> (hd DAILY_PLAN)
     (trace (run example_config client_fails [clock_at 2026 3 1 8 30 0 0])) = 1 \<and>
   LogException
     ''Reminder failed | key=2026-03-01-08:30-Morning dry fruits and seeds | error=HTTP 401 error''
     \<in> set (trace (run example_config client_fails [clock_at 2026 3 1 8 30 0 0])) \<and>
   attempts \<lparr>year = 2026, month = 3, day = 1\<rparr> (hd DAILY_PLAN)
     (trace (run example_config client_fails
        [clock_at 2026 3 1 8 30 0 0, clock_at 2026 3 2 0 0 0 0, clock_at 2026 3 1 8 30 0 0])) = 2"
  by code_simp

subsection \<open>The ledger is cleared when the date changes\<close>

text \<open>
  Claim C3, as amended. Let an iteration whose date is on or after the start date observe
  a date other than the recorded last-seen date (or let none be recorded yet). Then the
  \<^verbatim>\<open>for\<close> loop over the Plan starts from the empty ledger with the last-seen date set
  to the new date. After the iteration the ledger holds exactly the keys of the entries
  due at this minute, for the new date; no key of another valid date is in it. And an
  entry \<open>E\<close> that was dispatched earlier in the run (the state \<open>s\<close> was reached by polls
  \<open>earlier\<close> during which an attempt for \<open>E\<close> was made, for some date \<open>D0\<close>) is
  attempted exactly once for the new date over this poll and the polls that follow on
  the same date, provided one of them shows the minute of \<open>E\<close>.
\<close>

theorem date_change_resets_ledger:
  assumes "\<not> before_start config now"
    and "last_seen_date s \<noteq> Some (today_of config now)"
  shows "iteration config client plan now s =
      time_sleep (poll_interval_seconds config)
        (for_items config client (now_local_of config now) (today_of config now)
           (current_hm_of config now) plan
           (s\<lparr>sent_keys := {}, last_seen_date := Some (today_of config now)\<rparr>)) \<and>
    last_seen_date (iteration config client plan now s) = Some (today_of config now) \<and>
    sent_keys (iteration config client plan now s) =
      dispatch_key (today_of config now) ` {e \<in> set plan. time_24h e = current_hm_of config now} \<and>
    (\<forall>D e. valid_date D \<and> valid_date (today_of config now) \<and> D \<noteq> today_of config now \<longrightarrow>
       dispatch_key D e \<notin> sent_keys (iteration config client plan now s)) \<and>
    (s = run_loop config client plan earlier s0 \<and>
     attempts D0 E (trace s0) < attempts D0 E (trace s) \<and>
     (\<forall>n\<in>set nows. today_of config n = today_of config now) \<and>
     (\<exists>n\<in>set (now # nows). current_hm_of config n = time_24h E) \<longrightarrow>
       attempts (today_of config now) E (trace (run_loop config client plan (now # nows) s)) =
         attempts (today_of config now) E (trace s) + 1)"
proof (intro conjI allI impI)
  let ?D = "today_of config now"
  let ?s1 = "iteration config client plan now s"
  show "iteration config client plan now s =
      time_sleep (poll_interval_seconds config)
        (for_items config client (now_local_of config now) ?D
           (current_hm_of config now) plan (s\<lparr>sent_keys := {}, last_seen_date := Some ?D\<rparr>))"
    using assms by (simp add: iteration_active)
  show "last_seen_date ?s1 = Some ?D"
    using assms(1) by (rule last_seen_date_iteration_active)
  show keys: "sent_keys ?s1 =
      dispatch_key ?D ` {e \<in> set plan. time_24h e = current_hm_of config now}"
    using assms by (simp add: sent_keys_iteration_active)
  {
    fix D e
    assume h: "valid_date D \<and> valid_date ?D \<and> D \<noteq> ?D"
    show "dispatch_key D e \<notin> sent_keys ?s1"
    proof
      assume "dispatch_key D e \<in> sent_keys ?s1"
      then obtain e' where "dispatch_key D e = dispatch_key ?D e'"
        unfolding keys by auto
      then have "isoformat D = isoformat ?D" by (rule dispatch_key_eq_date)
      then have "D = ?D" using h isoformat_inj by blast
      then show False using h by simp
    qed
  }
  assume h: "s = run_loop config client plan earlier s0 \<and>
     attempts D0 E (trace s0) < attempts D0 E (trace s) \<and>
     (\<forall>n\<in>set nows. today_of config n = ?D) \<and>
     (\<exists>n\<in>set (now # nows). current_hm_of config n = time_24h E)"
  then have days: "\<forall>n\<in>set nows. today_of config n = ?D"
    and some: "\<exists>n\<in>set (now # nows). current_hm_of config n = time_24h E"
    by blast+
  from h have "attempts D0 E (trace s0) <
      attempts D0 E (trace (run_loop config client plan earlier s0))"
    by auto
  then obtain xs ys where plan: "plan = xs @ E # ys"
    and first: "\<forall>x\<in>set xs. \<not> (time_24h x = time_24h E \<and> title x = title E)"
    and len: "length (time_24h E) = 5"
    using attempted_entry_is_first by blast
  have start: "\<not> date_lt ?D (start_date config)"
    using assms(1) by (simp add: before_start_def)
  have seen1: "last_seen_date ?s1 = Some ?D"
    using assms(1) by (rule last_seen_date_iteration_active)
  note it = iteration_first[OF first len assms(1) refl, of client ys s]
  have a1: "attempts ?D E (trace ?s1) = attempts ?D E (trace s) +
      (if time_24h E = current_hm_of config now then 1 else 0)"
    using it assms(2) unfolding plan by simp
  have k1: "(dispatch_key ?D E \<in> sent_keys ?s1) = (time_24h E = current_hm_of config now)"
    using it assms(2) unfolding plan by simp
  note rl = run_loop_first[OF first len start days, of ?s1 client ys]
  have a2: "attempts ?D E (trace (run_loop config client plan nows ?s1)) =
      attempts ?D E (trace ?s1) +
        (if dispatch_key ?D E \<notin> sent_keys ?s1 \<and>
            (\<exists>now\<in>set nows. current_hm_of config now = time_24h E) then 1 else 0)"
    using rl seen1 unfolding plan by blast
  show "attempts ?D E (trace (run_loop config client plan (now # nows) s)) =
      attempts ?D E (trace s) + 1"
  proof (cases "time_24h E = current_hm_of config now")
    case True
    then show ?thesis using a1 a2 k1 by simp
  next
    case False
    then have "\<exists>now\<in>set nows. current_hm_of config now = time_24h E"
      using some by auto
    then show ?thesis using a1 a2 k1 False by simp
  qed
qed

text \<open>
  The theorem after a first day: the 08:30 entry was dispatched at 08:30 on 2026-03-01;
  the polls at 00:00 and twice at 08:30 on 2026-03-02 dispatch it once for 2026-03-02.
\<close>

theorem date_change_resets_ledger_witness:
  "\<not> before_start example_config (clock_at 2026 3 2 0 0 10 0) \<and>
   last_seen_date (run example_config client_ok [clock_at 2026 3 1 8 30 3 0]) =
     Some \<lparr>year = 2026, month = 3, day = 1\<rparr> \<and>
   today_of example_config (clock_at 2026 3 2 0 0 10 0) = \<lparr>year = 2026, month = 3, day = 2\<rparr> \<and>
   attempts \<lparr>year = 2026, month = 3, day = 1\<rparr> (hd DAILY_PLAN)
       (trace (startup example_config)) <
     attempts \<lparr>year = 2026, month = 3, day = 1\<rparr> (hd DAILY_PLAN)
       (trace (run example_config client_ok [clock_at 2026 3 1 8 30 3 0])) \<and>
   current_hm_of example_config (clock_at 2026 3 2 8 30 5 0) = time_24h (hd DAILY_PLAN) \<and>
   attempts \<lparr>year = 2026, month = 3, day = 2\<rparr> (hd DAILY_PLAN)
     (trace (run_loop example_config client_ok DAILY_PLAN
        [clock_at 2026 3 2 0 0 10 0, clock_at 2026 3 2 8 30 5 0, clock_at 2026 3 2 8 30 25 0]
        (run example_config client_ok [clock_at 2026 3 1 8 30 3 0]))) = 1"
proof -
  let ?D1 = "\<lparr>year = 2026, month = 3, day = 1\<rparr>"
  let ?D2 = "\<lparr>year = 2026, month = 3, day = 2\<rparr>"
  let ?s = "run example_config client_ok [clock_at 2026 3 1 8 30 3 0]"
  let ?now = "clock_at 2026 3 2 0 0 10 0"
  let ?nows = "[clock_at 2026 3 2 8 30 5 0, clock_at 2026 3 2 8 30 25 0]"
  have act: "\<not> before_start example_config ?now" by code_simp
  have act1: "\<not> before_start example_config (clock_at 2026 3 1 8 30 3 0)" by code_simp
  have today: "today_of example_config ?now = ?D2" by (simp add: today_of_clock_at)
  have seen: "last_seen_date ?s = Some ?D1"
    using act1 by (simp add: run_def last_seen_date_iteration_active today_of_clock_at)
  then have seen': "last_seen_date ?s \<noteq> Some (today_of example_config ?now)"
    unfolding today by simp
  have first: "attempts ?D1 (hd DAILY_PLAN) (trace (startup example_config)) <
      attempts ?D1 (hd DAILY_PLAN) (trace ?s)"
    by code_simp
  have hist: "?s = run_loop example_config client_ok DAILY_PLAN [clock_at 2026 3 1 8 30 3 0]
      (startup example_config)"
    by (simp add: run_def)
  have days: "\<forall>n\<in>set ?nows. today_of example_config n = today_of example_config ?now"
    by (simp add: today_of_clock_at)
  have hm: "current_hm_of example_config (clock_at 2026 3 2 8 30 5 0) = time_24h (hd DAILY_PLAN)"
    by code_simp
  then have some: "\<exists>n\<in>set (?now # ?nows). current_hm_of example_config n = time_24h (hd DAILY_PLAN)"
    by simp
  have zero: "attempts ?D2 (hd DAILY_PLAN) (trace ?s) = 0"
    unfolding run_def
    by (simp add: attempts_iteration_other today_of_clock_at attempts_startup)
  from date_change_resets_ledger[OF act seen', where client = client_ok and plan = DAILY_PLAN
      and E = "hd DAILY_PLAN" and nows = ?nows and ?D0.0 = ?D1
      and earlier = "[clock_at 2026 3 1 8 30 3 0]" and ?s0.0 = "startup example_config"]
    hist first days some
  have "attempts (today_of example_config ?now) (hd DAILY_PLAN)
      (trace (run_loop example_config client_ok DAILY_PLAN (?now # ?nows) ?s)) =
      attempts (today_of example_config ?now) (hd DAILY_PLAN) (trace ?s) + 1"
    by blast
  then have "attempts ?D2 (hd DAILY_PLAN)
      (trace (run_loop example_config client_ok DAILY_PLAN (?now # ?nows) ?s)) = 1"
    unfolding today zero by simp
  with act seen today first hm show ?thesis by blast
qed

text \<open>
  Claim C3 as stated, for every iteration, fails before the start date: line 212 comes
  first. With start date 2026-03-05, a poll at 08:30 on 2026-03-05 records the date and a
  key; the clock is then set back and shows 2026-03-04, a date other than the last-seen
  one, and that iteration neither clears the ledger nor records the new date.
\<close>

theorem date_change_before_start_counterexample:
  "last_seen_date (run march_config client_ok [clock_at 2026 3 5 8 30 0 0]) =
     Some \<lparr>year = 2026, month = 3, day = 5\<rparr> \<and>
   today_of march_config (clock_at 2026 3 4 8 30 0 0) = \<lparr>year = 2026, month = 3, day = 4\<rparr> \<and>
   ''2026-03-05-08:30-Morning dry fruits and seeds'' \<in>
     sent_keys (run march_config client_ok
       [clock_at 2026 3 5 8 30 0 0, clock_at 2026 3 4 8 30 0 0]) \<and>
   last_seen_date (run march_config client_ok
       [clock_at 2026 3 5 8 30 0 0, clock_at 2026 3 4 8 30 0 0]) =
     Some \<lparr>year = 2026, month = 3, day = 5\<rparr>"
  by code_simp

subsection \<open>The entries due in an iteration\<close>

text \<open>
  Claim C4. An iteration over the Plan is the same as over the entries of the Plan whose
  \<^verbatim>\<open>time_24h\<close> equals \<^verbatim>\<open>current_hm\<close>, which \<open>due_entries\<close> lists in Plan order: the other
  entries are passed over by the loop body without any effect, in every state. The entries
  handed to \<^verbatim>\<open>trigger_event\<close> in the iteration are a subsequence of the due entries; and
  on or after the start date every due entry has its key in the ledger when the iteration
  ends. The dispatch is exact: on or after the start date, when the due entries have
  keys of their own, the entries handed to \<^verbatim>\<open>trigger_event\<close> in the iteration are
  the due entries whose key is not in the ledger (emptied first when the date is new), all
  of them, in Plan order; with a new date or an empty ledger they are the due entries.
  (Claim C9 is about due entries that share a key.)
\<close>

theorem due_entries_are_the_exact_matches:
  "iteration config client plan now s =
     iteration config client (due_entries (current_hm_of config now) plan) now s \<and>
   due_entries (current_hm_of config now) plan =
     filter (\<lambda>entry. time_24h entry = current_hm_of config now) plan \<and>
   (\<exists>sent. subseq sent (due_entries (current_hm_of config now) plan) \<and>
      triggered (trace (iteration config client plan now s)) = triggered (trace s) @ sent) \<and>
   (\<forall>(entry :: ReminderItem) s'. time_24h entry \<noteq> current_hm_of config now \<longrightarrow>
      item_step config client (now_local_of config now) (today_of config now)
        (current_hm_of config now) entry s' = s') \<and>
   (\<forall>entry\<in>set plan. \<not> before_start config now \<and> time_24h entry = current_hm_of config now \<longrightarrow>
      dispatch_key (today_of config now) entry \<in> sent_keys (iteration config client plan now s)) \<and>
   (\<not> before_start config now \<and>
    distinct (map (dispatch_key (today_of config now))
       (due_entries (current_hm_of config now) plan)) \<longrightarrow>
      triggered (trace (iteration config client plan now s)) =
        triggered (trace s) @
          filter (\<lambda>entry. dispatch_key (today_of config now) entry \<notin>
                    (if last_seen_date s \<noteq> Some (today_of config now) then {} else sent_keys s))
            (due_entries (current_hm_of config now) plan)) \<and>
   (\<not> before_start config now \<and>
    distinct (map (dispatch_key (today_of config now))
       (due_entries (current_hm_of config now) plan)) \<and>
    (last_seen_date s \<noteq> Some (today_of config now) \<or> sent_keys s = {}) \<longrightarrow>
      triggered (trace (iteration config client plan now s)) =
        triggered (trace s) @ due_entries (current_hm_of config now) plan)"
proof (intro conjI allI ballI impI)
  show "iteration config client plan now s =
     iteration config client (due_entries (current_hm_of config now) plan) now s"
    by (simp add: iteration_due_entries)
  show "due_entries (current_hm_of config now) plan =
     filter (\<lambda>entry. time_24h entry = current_hm_of config now) plan"
    by (simp add: due_entries_def)
  show "\<exists>sent. subseq sent (due_entries (current_hm_of config now) plan) \<and>
      triggered (trace (iteration config client plan now s)) = triggered (trace s) @ sent"
    by (rule triggered_iteration)
next
  fix entry :: ReminderItem and s' :: state
  assume "time_24h entry \<noteq> current_hm_of config now"
  then show "item_step config client (now_local_of config now) (today_of config now)
        (current_hm_of config now) entry s' = s'"
    by (simp add: item_step_skip)
next
  fix entry
  assume "entry \<in> set plan"
    and "\<not> before_start config now \<and> time_24h entry = current_hm_of config now"
  then show "dispatch_key (today_of config now) entry \<in>
      sent_keys (iteration config client plan now s)"
    by (simp add: sent_keys_iteration_active)
next
  assume a: "\<not> before_start config now \<and>
    distinct (map (dispatch_key (today_of config now))
       (due_entries (current_hm_of config now) plan))"
  from a have act: "\<not> before_start config now" ..
  from a have dist: "distinct (map (dispatch_key (today_of config now))
       (due_entries (current_hm_of config now) plan))" ..
  show "triggered (trace (iteration config client plan now s)) =
        triggered (trace s) @
          filter (\<lambda>entry. dispatch_key (today_of config now) entry \<notin>
                    (if last_seen_date s \<noteq> Some (today_of config now) then {} else sent_keys s))
            (due_entries (current_hm_of config now) plan)"
    using act dist by (rule triggered_iteration_exact)
next
  assume a: "\<not> before_start config now \<and>
    distinct (map (dispatch_key (today_of config now))
       (due_entries (current_hm_of config now) plan)) \<and>
    (last_seen_date s \<noteq> Some (today_of config now) \<or> sent_keys s = {})"
  from a have act: "\<not> before_start config now" by blast
  from a have dist: "distinct (map (dispatch_key (today_of config now))
       (due_entries (current_hm_of config now) plan))" by blast
  from a have fresh: "(if last_seen_date s \<noteq> Some (today_of config now) then {} else sent_keys s) = {}"
    by auto
  show "triggered (trace (iteration config client plan now s)) =
        triggered (trace s) @ due_entries (current_hm_of config now) plan"
    unfolding triggered_iteration_exact[OF act dist] fresh by simp
qed

text \<open>
  The theorem at 08:30 on 2026-03-01 with a Plan of two entries at 08:30 and the 09:30
  entry of \<open>DAILY_PLAN\<close> between them: the 09:30 entry is passed over, and both 08:30
  entries are dispatched, in Plan order. When the key of the first is in the ledger of
  that day, the second alone is dispatched.
\<close>

theorem due_entries_are_the_exact_matches_witness:
  "time_24h (DAILY_PLAN ! 1) \<noteq> current_hm_of example_config (clock_at 2026 3 1 8 30 9 0) \<and>
   item_step example_config client_ok
       (now_local_of example_config (clock_at 2026 3 1 8 30 9 0))
       (today_of example_config (clock_at 2026 3 1 8 30 9 0))
       (current_hm_of example_config (clock_at 2026 3 1 8 30 9 0))
       (DAILY_PLAN ! 1) (startup example_config) = startup example_config \<and>
   vitamins \<in> set [water_first, DAILY_PLAN ! 1, vitamins] \<and>
   \<not> before_start example_config (clock_at 2026 3 1 8 30 9 0) \<and>
   time_24h vitamins = current_hm_of example_config (clock_at 2026 3 1 8 30 9 0) \<and>
   dispatch_key (today_of example_config (clock_at 2026 3 1 8 30 9 0)) vitamins \<in>
     sent_keys (iteration example_config client_ok [water_first, DAILY_PLAN ! 1, vitamins]
        (clock_at 2026 3 1 8 30 9 0) (startup example_config)) \<and>
   due_entries (current_hm_of example_config (clock_at 2026 3 1 8 30 9 0))
     [water_first, DAILY_PLAN ! 1, vitamins] = [water_first, vitamins] \<and>
   distinct (map (dispatch_key (today_of example_config (clock_at 2026 3 1 8 30 9 0)))
     (due_entries (current_hm_of example_config (clock_at 2026 3 1 8 30 9 0))
        [water_first, DAILY_PLAN ! 1, vitamins])) \<and>
   sent_keys (startup example_config) = {} \<and>
   triggered (trace (iteration example_config client_ok [water_first, DAILY_PLAN ! 1, vitamins]
      (clock_at 2026 3 1 8 30 9 0) (startup example_config))) = [water_first, vitamins] \<and>
   triggered (trace (iteration example_config client_ok [water_first, DAILY_PLAN ! 1, vitamins]
      (clock_at 2026 3 1 8 30 9 0)
      ((startup example_config)
         \<lparr>sent_keys := {dispatch_key \<lparr>year = 2026, month = 3, day = 1\<rparr> water_first},
          last_seen_date := Some \<lparr>year = 2026, month = 3, day = 1\<rparr>\<rparr>))) = [vitamins]"
proof -
  let ?now = "clock_at 2026 3 1 8 30 9 0"
  let ?D = "\<lparr>year = 2026, month = 3, day = 1\<rparr>"
  let ?plan = "[water_first, DAILY_PLAN ! 1, vitamins]"
  let ?s = "startup example_config"
  let ?s' = "(startup example_config)
       \<lparr>sent_keys := {dispatch_key ?D water_first}, last_seen_date := Some ?D\<rparr>"
  have today: "today_of example_config ?now = ?D" by (simp add: today_of_clock_at)
  have hm: "current_hm_of example_config ?now = ''08:30''" by code_simp
  have breakfast: "time_24h (DAILY_PLAN ! Suc 0) = ''09:30''" by (simp add: DAILY_PLAN_def)
  have other: "time_24h (DAILY_PLAN ! 1) \<noteq> current_hm_of example_config ?now"
    unfolding hm by (simp add: breakfast)
  have mem: "vitamins \<in> set ?plan" by simp
  have act: "\<not> before_start example_config ?now" by code_simp
  have same: "time_24h vitamins = current_hm_of example_config ?now"
    unfolding hm by (simp add: vitamins_def)
  have due: "due_entries (current_hm_of example_config ?now) ?plan = [water_first, vitamins]"
    unfolding hm by (simp add: due_entries_def breakfast water_first_def vitamins_def)
  have keys: "dispatch_key ?D water_first \<noteq> dispatch_key ?D vitamins"
    by (simp add: dispatch_key_def water_first_def vitamins_def)
  have dist: "distinct (map (dispatch_key (today_of example_config ?now))
      (due_entries (current_hm_of example_config ?now) ?plan))"
    unfolding due today using keys by simp
  have fresh: "sent_keys ?s = {}"
    by (simp add: startup_def)
  have none: "triggered (trace ?s) = []" by (simp add: startup_def)
  note spec = due_entries_are_the_exact_matches[where config = example_config
      and client = client_ok and plan = ?plan and now = ?now and s = ?s]
  note spec' = due_entries_are_the_exact_matches[where config = example_config
      and client = client_ok and plan = ?plan and now = ?now and s = ?s']
  from spec other have skip: "item_step example_config client_ok
       (now_local_of example_config ?now) (today_of example_config ?now)
       (current_hm_of example_config ?now) (DAILY_PLAN ! 1) ?s = ?s"
    by blast
  from spec mem act same have rec: "dispatch_key (today_of example_config ?now) vitamins \<in>
      sent_keys (iteration example_config client_ok ?plan ?now ?s)"
    by blast
  from spec act dist fresh have "triggered (trace (iteration example_config client_ok ?plan ?now ?s)) =
      triggered (trace ?s) @ due_entries (current_hm_of example_config ?now) ?plan"
    by blast
  then have all: "triggered (trace (iteration example_config client_ok ?plan ?now ?s)) =
      [water_first, vitamins]"
    unfolding due none by simp
  from spec' act dist have "triggered (trace (iteration example_config client_ok ?plan ?now ?s')) =
      triggered (trace ?s') @
        filter (\<lambda>entry. dispatch_key (today_of example_config ?now) entry \<notin>
                  (if last_seen_date ?s' \<noteq> Some (today_of example_config ?now) then {}
                   else sent_keys ?s'))
          (due_entries (current_hm_of example_config ?now) ?plan)"
    by blast
  then have rest: "triggered (trace (iteration example_config client_ok ?plan ?now ?s')) = [vitamins]"
    unfolding due today using keys by (simp add: startup_def)
  from other skip mem act same rec due dist fresh all rest show ?thesis
    by (intro conjI)
qed

subsection \<open>Nothing is dispatched before the start date\<close>

text \<open>
  Claim C5. When the observed date is before the start date, the iteration changes
  nothing but the trace, to which it adds its one \<^verbatim>\<open>time.sleep\<close>: no call of
  \<^verbatim>\<open>trigger_event\<close>, no log record, the ledger and the last-seen date as they were. On
  or after the start date the iteration goes on to the day-boundary check and the loop
  over the Plan, and an entry \<open>E\<close> whose time is the current minute and whose key is not
  yet consumed (the date is new, or the key is not in the ledger) is attempted once in
  the iteration and its key recorded; \<open>E\<close> is the first entry of the Plan with that key
  (see claim C9 for the others).
\<close>

theorem no_dispatch_before_start_date:
  "(before_start config now \<longrightarrow>
      iteration config client plan now s =
        s\<lparr>trace := trace s @ [Sleep (poll_interval_seconds config)]\<rparr>) \<and>
   (\<not> before_start config now \<longrightarrow>
      iteration config client plan now s =
        time_sleep (poll_interval_seconds config)
          (for_items config client (now_local_of config now) (today_of config now)
             (current_hm_of config now) plan
             (if last_seen_date s \<noteq> Some (today_of config now)
              then s\<lparr>sent_keys := {}, last_seen_date := Some (today_of config now)\<rparr> else s))) \<and>
   (\<not> before_start config now \<and> time_24h E = current_hm_of config now \<and>
    (last_seen_date s \<noteq> Some (today_of config now) \<or>
     dispatch_key (today_of config now) E \<notin> sent_keys s) \<and>
    (\<forall>x\<in>set xs. dispatch_key (today_of config now) x \<noteq> dispatch_key (today_of config now) E) \<longrightarrow>
      attempts (today_of config now) E (trace (iteration config client (xs @ E # ys) now s)) =
        attempts (today_of config now) E (trace s) + 1 \<and>
      dispatch_key (today_of config now) E \<in>
        sent_keys (iteration config client (xs @ E # ys) now s))"
proof (intro conjI impI)
  assume "before_start config now"
  then show "iteration config client plan now s =
      s\<lparr>trace := trace s @ [Sleep (poll_interval_seconds config)]\<rparr>"
    by (simp add: iteration_before_start time_sleep_def)
next
  assume "\<not> before_start config now"
  then show "iteration config client plan now s =
        time_sleep (poll_interval_seconds config)
          (for_items config client (now_local_of config now) (today_of config now)
             (current_hm_of config now) plan
             (if last_seen_date s \<noteq> Some (today_of config now)
              then s\<lparr>sent_keys := {}, last_seen_date := Some (today_of config now)\<rparr> else s))"
    by (rule iteration_active)
next
  assume h: "\<not> before_start config now \<and> time_24h E = current_hm_of config now \<and>
    (last_seen_date s \<noteq> Some (today_of config now) \<or>
     dispatch_key (today_of config now) E \<notin> sent_keys s) \<and>
    (\<forall>x\<in>set xs. dispatch_key (today_of config now) x \<noteq> dispatch_key (today_of config now) E)"
  let ?s1 = "if last_seen_date s \<noteq> Some (today_of config now)
             then s\<lparr>sent_keys := {}, last_seen_date := Some (today_of config now)\<rparr> else s"
  have tr: "trace ?s1 = trace s" by simp
  have pend: "dispatch_key (today_of config now) E \<notin> sent_keys ?s1" using h by auto
  have "attempts (date_of (now_local_of config now)) E
      (trace (for_items config client (now_local_of config now) (today_of config now)
         (current_hm_of config now) (xs @ E # ys) ?s1)) =
      attempts (date_of (now_local_of config now)) E (trace ?s1) + 1"
    using h pend by (intro attempts_for_items_first_pending) simp_all
  then show "attempts (today_of config now) E (trace (iteration config client (xs @ E # ys) now s)) =
        attempts (today_of config now) E (trace s) + 1"
    using h tr by (simp add: iteration_active attempts_time_sleep date_of_now_local_of)
  show "dispatch_key (today_of config now) E \<in>
        sent_keys (iteration config client (xs @ E # ys) now s)"
    using h by (simp add: sent_keys_iteration_active)
qed

text \<open>
  The theorem with start date 2026-03-05: the poll at 09:30 on 2026-03-04 only sleeps,
  the poll at 09:30 on 2026-03-05 dispatches the 09:30 entry.
\<close>

theorem no_dispatch_before_start_date_witness:
  "before_start march_config (clock_at 2026 3 4 9 30 11 0) \<and>
   iteration march_config client_ok DAILY_PLAN (clock_at 2026 3 4 9 30 11 0)
       (startup march_config) =
     (startup march_config)\<lparr>trace := trace (startup march_config) @ [Sleep 20]\<rparr> \<and>
   \<not> before_start march_config (clock_at 2026 3 5 9 30 11 0) \<and>
   time_24h (DAILY_PLAN ! 1) = current_hm_of march_config (clock_at 2026 3 5 9 30 11 0) \<and>
   last_seen_date (startup march_config) \<noteq> Some \<lparr>year = 2026, month = 3, day = 5\<rparr> \<and>
   dispatch_key \<lparr>year = 2026, month = 3, day = 5\<rparr> (DAILY_PLAN ! 0) \<noteq>
     dispatch_key \<lparr>year = 2026, month = 3, day = 5\<rparr> (DAILY_PLAN ! 1) \<and>
   attempts \<lparr>year = 2026, month = 3, day = 5\<rparr> (DAILY_PLAN ! 1)
     (trace (iteration march_config client_ok DAILY_PLAN (clock_at 2026 3 5 9 30 11 0)
        (startup march_config))) = 1"
proof -
  let ?D = "\<lparr>year = 2026, month = 3, day = 5\<rparr>"
  let ?before = "clock_at 2026 3 4 9 30 11 0"
  let ?on = "clock_at 2026 3 5 9 30 11 0"
  have b: "before_start march_config ?before" by code_simp
  have a: "\<not> before_start march_config ?on" by code_simp
  have hm: "time_24h (DAILY_PLAN ! 1) = current_hm_of march_config ?on" by code_simp
  have seen: "last_seen_date (startup march_config) \<noteq> Some ?D" by (simp add: startup_def)
  have seen': "last_seen_date (startup march_config) \<noteq> Some (today_of march_config ?on)"
    by (simp add: startup_def)
  have k: "dispatch_key ?D (DAILY_PLAN ! 0) \<noteq> dispatch_key ?D (DAILY_PLAN ! 1)" by code_simp
  have today: "today_of march_config ?on = ?D" by (simp add: today_of_clock_at)
  have pl: "[DAILY_PLAN ! 0] @ DAILY_PLAN ! 1 # drop 2 DAILY_PLAN = DAILY_PLAN"
    by (simp add: DAILY_PLAN_def)
  have first: "\<forall>x\<in>set [DAILY_PLAN ! 0].
      dispatch_key (today_of march_config ?on) x \<noteq>
      dispatch_key (today_of march_config ?on) (DAILY_PLAN ! 1)"
    using k today by simp
  have p: "poll_interval_seconds march_config = 20"
    by (simp add: march_config_def example_config_def)
  from no_dispatch_before_start_date[where config = march_config and now = ?before
      and client = client_ok and plan = DAILY_PLAN and s = "startup march_config"] b
  have waits: "iteration march_config client_ok DAILY_PLAN ?before (startup march_config) =
      (startup march_config)\<lparr>trace := trace (startup march_config) @ [Sleep 20]\<rparr>"
    unfolding p by blast
  from no_dispatch_before_start_date[where config = march_config and now = ?on
      and client = client_ok and s = "startup march_config" and E = "DAILY_PLAN ! 1"
      and xs = "[DAILY_PLAN ! 0]" and ys = "drop 2 DAILY_PLAN"] a hm seen' first
  have "attempts (today_of march_config ?on) (DAILY_PLAN ! 1)
      (trace (iteration march_config client_ok
         ([DAILY_PLAN ! 0] @ DAILY_PLAN ! 1 # drop 2 DAILY_PLAN) ?on (startup march_config))) =
      attempts (today_of march_config ?on) (DAILY_PLAN ! 1) (trace (startup march_config)) + 1"
    by blast
  then have "attempts ?D (DAILY_PLAN ! 1)
      (trace (iteration march_config client_ok DAILY_PLAN ?on (startup march_config))) = 1"
    unfolding pl today by (simp add: attempts_startup)
  with b waits a hm seen k show ?thesis by blast
qed

subsection \<open>Waiting and active iterations\<close>

text \<open>
  Claim C6, as amended. The loop keeps no record of having started: line 212 tests the
  date of each iteration afresh. An iteration whose date is before the start date only
  sleeps, in every state, also in one reached after dispatches were made. The step from
  waiting to active therefore lasts as long as the clock does not go back before the
  start date: once a poll has shown a date on or after the start date, a poll showing the
  same or a later date takes the active path (the day-boundary check and the loop over
  the Plan).
\<close>

theorem waiting_decided_by_observed_date:
  "(before_start config now \<longrightarrow>
      iteration config client plan now s = time_sleep (poll_interval_seconds config) s) \<and>
   (\<not> before_start config now1 \<and> date_le (today_of config now1) (today_of config now2) \<longrightarrow>
      \<not> before_start config now2 \<and>
      iteration config client plan now2 s =
        time_sleep (poll_interval_seconds config)
          (for_items config client (now_local_of config now2) (today_of config now2)
             (current_hm_of config now2) plan
             (if last_seen_date s \<noteq> Some (today_of config now2)
              then s\<lparr>sent_keys := {}, last_seen_date := Some (today_of config now2)\<rparr> else s)))"
proof (intro conjI impI)
  assume "before_start config now"
  then show "iteration config client plan now s = time_sleep (poll_interval_seconds config) s"
    by (rule iteration_before_start)
next
  assume h: "\<not> before_start config now1 \<and> date_le (today_of config now1) (today_of config now2)"
  then show act: "\<not> before_start config now2"
    unfolding before_start_def using date_lt_trans_le by blast
  then show "iteration config client plan now2 s =
        time_sleep (poll_interval_seconds config)
          (for_items config client (now_local_of config now2) (today_of config now2)
             (current_hm_of config now2) plan
             (if last_seen_date s \<noteq> Some (today_of config now2)
              then s\<lparr>sent_keys := {}, last_seen_date := Some (today_of config now2)\<rparr> else s))"
    by (rule iteration_active)
qed

text \<open>
  The theorem with start date 2026-03-05: the poll on 2026-03-04 waits, the poll on
  2026-03-05 does not, and then neither does the poll on 2026-03-06.
\<close>

theorem waiting_decided_by_observed_date_witness:
  "before_start march_config (clock_at 2026 3 4 8 30 0 0) \<and>
   iteration march_config client_ok DAILY_PLAN (clock_at 2026 3 4 8 30 0 0)
       (startup march_config) = time_sleep 20 (startup march_config) \<and>
   \<not> before_start march_config (clock_at 2026 3 5 8 30 0 0) \<and>
   date_le (today_of march_config (clock_at 2026 3 5 8 30 0 0))
     (today_of march_config (clock_at 2026 3 6 8 30 0 0)) \<and>
   \<not> before_start march_config (clock_at 2026 3 6 8 30 0 0)"
proof -
  have b: "before_start march_config (clock_at 2026 3 4 8 30 0 0)" by code_simp
  have a: "\<not> before_start march_config (clock_at 2026 3 5 8 30 0 0)" by code_simp
  have le: "date_le (today_of march_config (clock_at 2026 3 5 8 30 0 0))
     (today_of march_config (clock_at 2026 3 6 8 30 0 0))" by code_simp
  have p: "poll_interval_seconds march_config = 20"
    by (simp add: march_config_def example_config_def)
  from waiting_decided_by_observed_date[where config = march_config
      and now = "clock_at 2026 3 4 8 30 0 0" and client = client_ok and plan = DAILY_PLAN
      and s = "startup march_config" and ?now1.0 = "clock_at 2026 3 5 8 30 0 0"
      and ?now2.0 = "clock_at 2026 3 6 8 30 0 0"] b a le
  show ?thesis unfolding p by blast
qed

text \<open>
  Claim C6 as stated fails when the clock reports a date before the start date after the
  loop became active. With start date 2026-03-05, the first poll (08:30 on 2026-03-05)
  dispatches the 08:30 entry. The second poll shows 09:30 on 2026-03-04: the iteration
  waits again, the 09:30 entry is not dispatched and the last-seen date is untouched. Had
  the second poll shown 09:30 on 2026-03-05, the 09:30 entry would have been dispatched.
\<close>

theorem waiting_again_counterexample:
  "\<not> before_start march_config (clock_at 2026 3 5 8 30 0 0) \<and>
   before_start march_config (clock_at 2026 3 4 9 30 0 0) \<and>
   triggered (trace (run march_config client_ok
      [clock_at 2026 3 5 8 30 0 0, clock_at 2026 3 4 9 30 0 0])) = [DAILY_PLAN ! 0] \<and>
   last_seen_date (run march_config client_ok
      [clock_at 2026 3 5 8 30 0 0, clock_at 2026 3 4 9 30 0 0]) =
     Some \<lparr>year = 2026, month = 3, day = 5\<rparr> \<and>
   triggered (trace (run march_config client_ok
      [clock_at 2026 3 5 8 30 0 0, clock_at 2026 3 5 9 30 0 0])) =
     [DAILY_PLAN ! 0, DAILY_PLAN ! 1]"
  by code_simp

subsection \<open>Recording a key\<close>

text \<open>
  Claim C7. Adding a key to the ledger twice gives the state that adding it once gives.
  Once a key is added, it stays in the ledger over any number of iterations that observe
  the date the ledger is for, so the test of line 225 finds it every time and the loop
  body passes over an entry with that key without any effect.
\<close>

theorem sent_keys_add_idempotent:
  "sent_keys_add key (sent_keys_add key s) = sent_keys_add key s \<and>
   key \<in> sent_keys (sent_keys_add key s) \<and>
   (last_seen_date s = Some D \<and> (\<forall>now\<in>set nows. today_of config now = D) \<longrightarrow>
      key \<in> sent_keys (run_loop config client plan nows (sent_keys_add key s)) \<and>
      (\<forall>item t hm. dispatch_key D item = key \<longrightarrow>
         item_step config client t D hm item
           (run_loop config client plan nows (sent_keys_add key s)) =
         run_loop config client plan nows (sent_keys_add key s)))"
proof (intro conjI impI allI)
  show "sent_keys_add key (sent_keys_add key s) = sent_keys_add key s"
    by (simp add: sent_keys_add_def)
  show "key \<in> sent_keys (sent_keys_add key s)"
    by (simp add: sent_keys_add_def)
next
  assume h: "last_seen_date s = Some D \<and> (\<forall>now\<in>set nows. today_of config now = D)"
  then have "last_seen_date (sent_keys_add key s) = Some D"
    by (simp add: sent_keys_add_def)
  moreover have "\<forall>now\<in>set nows. today_of config now = D \<or> before_start config now"
    using h by simp
  ultimately have "sent_keys (sent_keys_add key s) \<subseteq>
      sent_keys (run_loop config client plan nows (sent_keys_add key s))"
    using run_loop_same_day by blast
  then show in_ledger: "key \<in> sent_keys (run_loop config client plan nows (sent_keys_add key s))"
    by (auto simp: sent_keys_add_def)
  fix item t hm
  assume "dispatch_key D item = key"
  then show "item_step config client t D hm item
        (run_loop config client plan nows (sent_keys_add key s)) =
      run_loop config client plan nows (sent_keys_add key s)"
    using in_ledger by (simp add: item_step_recorded)
qed

text \<open>
  The theorem for the key of the 08:30 entry on 2026-03-01 and two further polls at 08:30
  of that day.
\<close>

theorem sent_keys_add_idempotent_witness:
  "last_seen_date \<lparr>sent_keys = {}, last_seen_date = Some \<lparr>year = 2026, month = 3, day = 1\<rparr>,
      trace = []\<rparr> = Some \<lparr>year = 2026, month = 3, day = 1\<rparr> \<and>
   today_of example_config (clock_at 2026 3 1 8 30 4 0) = \<lparr>year = 2026, month = 3, day = 1\<rparr> \<and>
   today_of example_config (clock_at 2026 3 1 8 30 24 0) = \<lparr>year = 2026, month = 3, day = 1\<rparr> \<and>
   dispatch_key \<lparr>year = 2026, month = 3, day = 1\<rparr> (hd DAILY_PLAN) =
     ''2026-03-01-08:30-Morning dry fruits and seeds'' \<and>
   ''2026-03-01-08:30-Morning dry fruits and seeds'' \<in>
     sent_keys (run_loop example_config client_ok DAILY_PLAN
       [clock_at 2026 3 1 8 30 4 0, clock_at 2026 3 1 8 30 24 0]
       (sent_keys_add ''2026-03-01-08:30-Morning dry fruits and seeds''
          \<lparr>sent_keys = {}, last_seen_date = Some \<lparr>year = 2026, month = 3, day = 1\<rparr>,
           trace = []\<rparr>)) \<and>
   item_step example_config client_ok (now_local_of example_config (clock_at 2026 3 1 8 30 44 0))
       \<lparr>year = 2026, month = 3, day = 1\<rparr> ''08:30'' (hd DAILY_PLAN)
     (run_loop example_config client_ok DAILY_PLAN
       [clock_at 2026 3 1 8 30 4 0, clock_at 2026 3 1 8 30 24 0]
       (sent_keys_add ''2026-03-01-08:30-Morning dry fruits and seeds''
          \<lparr>sent_keys = {}, last_seen_date = Some \<lparr>year = 2026, month = 3, day = 1\<rparr>,
           trace = []\<rparr>)) =
     run_loop example_config client_ok DAILY_PLAN
       [clock_at 2026 3 1 8 30 4 0, clock_at 2026 3 1 8 30 24 0]
       (sent_keys_add ''2026-03-01-08:30-Morning dry fruits and seeds''
          \<lparr>sent_keys = {}, last_seen_date = Some \<lparr>year = 2026, month = 3, day = 1\<rparr>,
           trace = []\<rparr>)"
proof -
  let ?D = "\<lparr>year = 2026, month = 3, day = 1\<rparr>"
  let ?s = "\<lparr>sent_keys = {}, last_seen_date = Some ?D, trace = []\<rparr>"
  let ?key = "''2026-03-01-08:30-Morning dry fruits and seeds''"
  let ?nows = "[clock_at 2026 3 1 8 30 4 0, clock_at 2026 3 1 8 30 24 0]"
  have seen: "last_seen_date ?s = Some ?D" by simp
  have t1: "today_of example_config (clock_at 2026 3 1 8 30 4 0) = ?D"
    and t2: "today_of example_config (clock_at 2026 3 1 8 30 24 0) = ?D"
    by (simp_all add: today_of_clock_at)
  have day: "\<forall>now\<in>set ?nows. today_of example_config now = ?D"
    using t1 t2 by simp
  have key: "dispatch_key ?D (hd DAILY_PLAN) = ?key" by code_simp
  from sent_keys_add_idempotent[where key = ?key and s = ?s and D = ?D and nows = ?nows
      and config = example_config and client = client_ok and plan = DAILY_PLAN] seen day
  have ledger: "?key \<in> sent_keys (run_loop example_config client_ok DAILY_PLAN ?nows
        (sent_keys_add ?key ?s))"
    and skip: "\<forall>item t hm. dispatch_key ?D item = ?key \<longrightarrow>
        item_step example_config client_ok t ?D hm item
          (run_loop example_config client_ok DAILY_PLAN ?nows (sent_keys_add ?key ?s)) =
        run_loop example_config client_ok DAILY_PLAN ?nows (sent_keys_add ?key ?s)"
    by blast+
  from skip key have "item_step example_config client_ok
      (now_local_of example_config (clock_at 2026 3 1 8 30 44 0)) ?D ''08:30'' (hd DAILY_PLAN)
      (run_loop example_config client_ok DAILY_PLAN ?nows (sent_keys_add ?key ?s)) =
      run_loop example_config client_ok DAILY_PLAN ?nows (sent_keys_add ?key ?s)"
    by blast
  with seen t1 t2 key ledger show ?thesis by blast
qed

subsection \<open>The clock reading is truncated to the minute\<close>

text \<open>
  Claim C8. The time an iteration works with is the reading of the clock for the
  configured timezone with \<^verbatim>\<open>second\<close> and \<^verbatim>\<open>microsecond\<close> set to zero. The date
  compared with the start date and the last-seen date, the \<^verbatim>\<open>HH:MM\<close> string compared
  with the entries, and the time handed to \<^verbatim>\<open>trigger_event\<close> are all computed from this
  truncated value.
\<close>

theorem now_local_truncated_to_minute:
  "now_local_of config now = (now (timezone config))\<lparr>second := 0, microsecond := 0\<rparr> \<and>
   second (now_local_of config now) = 0 \<and> microsecond (now_local_of config now) = 0 \<and>
   iteration config client plan now s =
     (let now_local = (now (timezone config))\<lparr>second := 0, microsecond := 0\<rparr> in
      if date_lt (date_of now_local) (start_date config)
      then time_sleep (poll_interval_seconds config) s
      else time_sleep (poll_interval_seconds config)
        (for_items config client now_local (date_of now_local) (strftime_HM now_local) plan
           (if last_seen_date s \<noteq> Some (date_of now_local)
            then s\<lparr>sent_keys := {}, last_seen_date := Some (date_of now_local)\<rparr> else s))) \<and>
   set (trigger_times (trace (iteration config client plan now s))) \<subseteq>
     set (trigger_times (trace s)) \<union> {(now (timezone config))\<lparr>second := 0, microsecond := 0\<rparr>}"
proof (intro conjI)
  show eq: "now_local_of config now = (now (timezone config))\<lparr>second := 0, microsecond := 0\<rparr>"
    by (simp add: now_local_of_def replace_second_microsecond_def)
  show "second (now_local_of config now) = 0" by (simp add: eq)
  show "microsecond (now_local_of config now) = 0" by (simp add: eq)
  show "iteration config client plan now s =
     (let now_local = (now (timezone config))\<lparr>second := 0, microsecond := 0\<rparr> in
      if date_lt (date_of now_local) (start_date config)
      then time_sleep (poll_interval_seconds config) s
      else time_sleep (poll_interval_seconds config)
        (for_items config client now_local (date_of now_local) (strftime_HM now_local) plan
           (if last_seen_date s \<noteq> Some (date_of now_local)
            then s\<lparr>sent_keys := {}, last_seen_date := Some (date_of now_local)\<rparr> else s)))"
    unfolding iteration_def eq Let_def by simp
  show "set (trigger_times (trace (iteration config client plan now s))) \<subseteq>
     set (trigger_times (trace s)) \<union> {(now (timezone config))\<lparr>second := 0, microsecond := 0\<rparr>}"
  proof (cases "before_start config now")
    case True
    then show ?thesis
      by (auto simp: iteration_before_start trace_time_sleep trigger_times_append)
  next
    case False
    let ?s1 = "if last_seen_date s \<noteq> Some (today_of config now)
             then s\<lparr>sent_keys := {}, last_seen_date := Some (today_of config now)\<rparr> else s"
    have tr: "trace ?s1 = trace s" by simp
    have "set (trigger_times (trace (for_items config client
        (now_local_of config now) (today_of config now) (current_hm_of config now) plan ?s1))) \<subseteq>
        set (trigger_times (trace ?s1)) \<union> {now_local_of config now}"
      by (rule trigger_times_for_items)
    then show ?thesis using False unfolding tr eq
      by (auto simp: iteration_active trace_time_sleep trigger_times_append eq)
  qed
qed

text \<open>
  The theorem at a reading of 08:30:17.123456 on 2026-03-01.
\<close>

theorem now_local_truncated_to_minute_witness:
  "now_local_of example_config (clock_at 2026 3 1 8 30 17 123456) =
     \<lparr>year = 2026, month = 3, day = 1, hour = 8, minute = 30, second = 0, microsecond = 0\<rparr> \<and>
   second (now_local_of example_config (clock_at 2026 3 1 8 30 17 123456)) = 0 \<and>
   microsecond (now_local_of example_config (clock_at 2026 3 1 8 30 17 123456)) = 0"
proof -
  have "(clock_at 2026 3 1 8 30 17 123456 (timezone example_config))
      \<lparr>second := 0, microsecond := 0\<rparr> =
      \<lparr>year = 2026, month = 3, day = 1, hour = 8, minute = 30, second = 0, microsecond = 0\<rparr>"
    by (simp add: clock_at_def)
  with now_local_truncated_to_minute[where config = example_config
      and now = "clock_at 2026 3 1 8 30 17 123456"]
  show ?thesis by simp
qed

subsection \<open>The key ignores the details of an entry\<close>

text \<open>
  Claim C9. Two entries with the same time and title have the same key on every date,
  whatever their details. If the Plan holds such an entry \<open>a\<close> and, only after it, a
  different entry \<open>b\<close> with the time and title of \<open>a\<close>, then no run of the loop ever
  attempts \<open>b\<close>, on any date and from any state; while \<open>a\<close>, when no entry before it has
  its key, is attempted at its minute as any entry is.
\<close>

theorem same_time_and_title_share_key:
  "(time_24h a = time_24h b \<and> title a = title b \<longrightarrow> dispatch_key D a = dispatch_key D b) \<and>
   (time_24h a = time_24h b \<and> title a = title b \<and> a \<noteq> b \<and> b \<notin> set xs \<longrightarrow>
      attempts D b (trace (run_loop config client (xs @ a # ys) nows s)) =
        attempts D b (trace s)) \<and>
   (\<not> before_start config now \<and> time_24h a = current_hm_of config now \<and>
    (last_seen_date s \<noteq> Some (today_of config now) \<or>
     dispatch_key (today_of config now) a \<notin> sent_keys s) \<and>
    (\<forall>x\<in>set xs. dispatch_key (today_of config now) x \<noteq> dispatch_key (today_of config now) a) \<longrightarrow>
      attempts (today_of config now) a (trace (iteration config client (xs @ a # ys) now s)) =
        attempts (today_of config now) a (trace s) + 1)"
proof (intro conjI impI)
  assume "time_24h a = time_24h b \<and> title a = title b"
  then show "dispatch_key D a = dispatch_key D b"
    by (simp add: dispatch_key_def)
next
  assume "time_24h a = time_24h b \<and> title a = title b \<and> a \<noteq> b \<and> b \<notin> set xs"
  then show "attempts D b (trace (run_loop config client (xs @ a # ys) nows s)) =
        attempts D b (trace s)"
    by (intro attempts_run_loop_shadowed) simp_all
next
  assume h: "\<not> before_start config now \<and> time_24h a = current_hm_of config now \<and>
    (last_seen_date s \<noteq> Some (today_of config now) \<or>
     dispatch_key (today_of config now) a \<notin> sent_keys s) \<and>
    (\<forall>x\<in>set xs. dispatch_key (today_of config now) x \<noteq> dispatch_key (today_of config now) a)"
  let ?s1 = "if last_seen_date s \<noteq> Some (today_of config now)
             then s\<lparr>sent_keys := {}, last_seen_date := Some (today_of config now)\<rparr> else s"
  have tr: "trace ?s1 = trace s" by simp
  have pend: "dispatch_key (today_of config now) a \<notin> sent_keys ?s1" using h by auto
  have "attempts (date_of (now_local_of config now)) a
      (trace (for_items config client (now_local_of config now) (today_of config now)
         (current_hm_of config now) (xs @ a # ys) ?s1)) =
      attempts (date_of (now_local_of config now)) a (trace ?s1) + 1"
    using h pend by (intro attempts_for_items_first_pending) simp_all
  then show "attempts (today_of config now) a (trace (iteration config client (xs @ a # ys) now s)) =
        attempts (today_of config now) a (trace s) + 1"
    using h tr by (simp add: iteration_active attempts_time_sleep date_of_now_local_of)
qed

text \<open>
  The theorem for a Plan of two entries at 08:30 with the title Water and different
  details, polled twice at 08:30 on 2026-03-01.
\<close>

theorem same_time_and_title_share_key_witness:
  "time_24h water_first = time_24h water_second \<and> title water_first = title water_second \<and>
   water_first \<noteq> water_second \<and>
   dispatch_key \<lparr>year = 2026, month = 3, day = 1\<rparr> water_first =
     dispatch_key \<lparr>year = 2026, month = 3, day = 1\<rparr> water_second \<and>
   attempts \<lparr>year = 2026, month = 3, day = 1\<rparr> water_second
     (trace (run_loop example_config client_ok [water_first, water_second]
        [clock_at 2026 3 1 8 30 1 0, clock_at 2026 3 1 8 30 21 0] (startup example_config))) = 0 \<and>
   attempts \<lparr>year = 2026, month = 3, day = 1\<rparr> water_first
     (trace (iteration example_config client_ok [water_first, water_second]
        (clock_at 2026 3 1 8 30 1 0) (startup example_config))) = 1"
proof -
  let ?D = "\<lparr>year = 2026, month = 3, day = 1\<rparr>"
  let ?now = "clock_at 2026 3 1 8 30 1 0"
  have same: "time_24h water_first = time_24h water_second \<and>
      title water_first = title water_second"
    by (simp add: water_first_def water_second_def)
  have diff: "water_first \<noteq> water_second"
    by (simp add: water_first_def water_second_def)
  have pl: "[] @ water_first # [water_second] = [water_first, water_second]" by simp
  have act: "\<not> before_start example_config ?now" by code_simp
  have hm: "time_24h water_first = current_hm_of example_config ?now" by code_simp
  have seen: "last_seen_date (startup example_config) \<noteq> Some (today_of example_config ?now)"
    by (simp add: startup_def)
  have today: "today_of example_config ?now = ?D" by (simp add: today_of_clock_at)
  note spec = same_time_and_title_share_key[where a = water_first and b = water_second
      and xs = "[]" and ys = "[water_second]" and config = example_config and client = client_ok
      and s = "startup example_config" and D = ?D and now = ?now
      and nows = "[clock_at 2026 3 1 8 30 1 0, clock_at 2026 3 1 8 30 21 0]"]
  from spec same have key: "dispatch_key ?D water_first = dispatch_key ?D water_second"
    by blast
  from spec same diff have "attempts ?D water_second
      (trace (run_loop example_config client_ok ([] @ water_first # [water_second])
         [clock_at 2026 3 1 8 30 1 0, clock_at 2026 3 1 8 30 21 0] (startup example_config))) =
      attempts ?D water_second (trace (startup example_config))"
    by simp
  then have never: "attempts ?D water_second
      (trace (run_loop example_config client_ok [water_first, water_second]
         [clock_at 2026 3 1 8 30 1 0, clock_at 2026 3 1 8 30 21 0] (startup example_config))) = 0"
    unfolding pl by (simp add: attempts_startup)
  from spec act hm seen have "attempts (today_of example_config ?now) water_first
      (trace (iteration example_config client_ok ([] @ water_first # [water_second]) ?now
         (startup example_config))) =
      attempts (today_of example_config ?now) water_first (trace (startup example_config)) + 1"
    by simp
  then have once: "attempts ?D water_first
      (trace (iteration example_config client_ok [water_first, water_second] ?now
         (startup example_config))) = 1"
    unfolding pl today by (simp add: attempts_startup)
  from same diff key never once show ?thesis by blast
qed

end
